theory Spec2Isabelle
  imports Main "HOL-Library.Word" "HOL-Library.Sublist"
begin

section \<open>Go values used by the client\<close>

text \<open>
  Go's \<open>int\<close> and \<open>uint\<close> are taken at 64 bits (amd64, arm64): arithmetic wraps,
  comparisons of \<open>int\<close> are signed.
\<close>

type_synonym go_int = "64 word"
type_synonym go_uint = "64 word"

datatype num_err = ErrSyntax | ErrRange

datatype go_error =
    ErrorString string
  | NumError string string num_err
  | IOError string

text \<open>
  What a call does: it returns a value, never returns (it waits on the peer or on the
  pipeline), or panics. Each case carries the state the call leaves behind.
\<close>

datatype panic_val = RuntimeError string | ErrorValue go_error

datatype ('a, 's) outcome = Returns 'a 's | Blocks 's | Panics panic_val 's

type_synonym 'a result = "('a, unit) outcome"

abbreviation Value :: "'a \<Rightarrow> 'a result" where
  "Value x \<equiv> Returns x ()"

abbreviation Panic :: "panic_val \<Rightarrow> 'a result" where
  "Panic m \<equiv> Panics m ()"

definition final :: "('a, 's) outcome \<Rightarrow> 's" where
  "final r = (case r of Returns _ s \<Rightarrow> s | Blocks s \<Rightarrow> s | Panics _ s \<Rightarrow> s)"

definition ret :: "'a \<Rightarrow> 's \<Rightarrow> ('a, 's) outcome" where
  "ret x s = Returns x s"

definition bind :: "('s \<Rightarrow> ('a, 's) outcome) \<Rightarrow> ('a \<Rightarrow> 's \<Rightarrow> ('b, 's) outcome) \<Rightarrow> 's \<Rightarrow> ('b, 's) outcome" where
  "bind m f s = (case m s of
       Returns a s1 \<Rightarrow> f a s1
     | Blocks s1 \<Rightarrow> Blocks s1
     | Panics msg s1 \<Rightarrow> Panics msg s1)"

text \<open>
  \<open>defer d\<close> in front of \<open>body\<close>: \<open>d\<close> runs when the body returns and when it
  panics, not when it never returns.
\<close>

definition deferring :: "('s \<Rightarrow> (unit, 's) outcome) \<Rightarrow> ('s \<Rightarrow> ('a, 's) outcome) \<Rightarrow> 's \<Rightarrow> ('a, 's) outcome" where
  "deferring d body s = (case body s of
       Returns a s1 \<Rightarrow> (case d s1 of
           Returns _ s2 \<Rightarrow> Returns a s2
         | Blocks s2 \<Rightarrow> Blocks s2
         | Panics m s2 \<Rightarrow> Panics m s2)
     | Blocks s1 \<Rightarrow> Blocks s1
     | Panics m s1 \<Rightarrow> (case d s1 of
           Returns _ s2 \<Rightarrow> Panics m s2
         | Blocks s2 \<Rightarrow> Blocks s2
         | Panics m2 s2 \<Rightarrow> Panics m2 s2))"

subsection \<open>Strings\<close>

text \<open>\<open>strings.Index(s, sep)\<close>: the index of the first occurrence of \<open>sep\<close>, or -1.\<close>

fun index_from :: "nat \<Rightarrow> string \<Rightarrow> string \<Rightarrow> int" where
  "index_from i [] sep = (if sep = [] then int i else - 1)"
| "index_from i (c # cs) sep =
     (if prefix sep (c # cs) then int i else index_from (Suc i) cs sep)"

definition strings_Index :: "string \<Rightarrow> string \<Rightarrow> int" where
  "strings_Index s sep = index_from 0 s sep"

text \<open>
  The slice expression \<open>s[lo:hi]\<close>: Go panics unless \<open>0 \<le> lo \<le> hi \<le> len(s)\<close>.
\<close>

definition go_slice :: "string \<Rightarrow> int \<Rightarrow> int \<Rightarrow> string result" where
  "go_slice s lo hi =
     (if 0 \<le> lo \<and> lo \<le> hi \<and> hi \<le> int (length s)
      then Value (take (nat hi - nat lo) (drop (nat lo) s))
      else Panic (RuntimeError ''slice bounds out of range''))"

definition slice_from :: "string \<Rightarrow> int \<Rightarrow> string result" where
  "slice_from s lo = go_slice s lo (int (length s))"

subsection \<open>Info\<close>

type_synonym Info = "string \<rightharpoonup> string"

text \<open>The index expression \<open>m[k]\<close> of a Go map: the empty string for a missing key.\<close>

definition at :: "Info \<Rightarrow> string \<Rightarrow> string" where
  "at m k = (case m k of None \<Rightarrow> [] | Some v \<Rightarrow> v)"

definition infoFieldSep :: string where
  "infoFieldSep = '': ''"

text \<open>
  \<open>strconv.ParseFloat\<close> and the conversion \<open>int(f)\<close> of a float64 belong to Go, not to
  this repository; they are parameters. ParseFloat returns a value also when it returns
  an error.
\<close>

record 'f floats =
  ParseFloat :: "string \<Rightarrow> 'f \<times> go_error option"
  to_int :: "'f \<Rightarrow> go_int"

text \<open>\<open>Info.Progress\<close> (client.go).\<close>

definition Progress :: "'f floats \<Rightarrow> Info \<Rightarrow> (go_int \<times> go_int) result" where
  "Progress L i =
     (case i ''time'' of
        Some t \<Rightarrow>
          (let fieldSepIndex = strings_Index t '':'' in
           case go_slice t 0 fieldSepIndex of
             Panics m u \<Rightarrow> Panics m u
           | Blocks u \<Rightarrow> Blocks u
           | Returns a _ \<Rightarrow>
               (let (current, err) = ParseFloat L a in
                case slice_from t (fieldSepIndex + 1) of
                  Panics m u \<Rightarrow> Panics m u
                | Blocks u \<Rightarrow> Blocks u
                | Returns b _ \<Rightarrow>
                    (let (tot, err) = ParseFloat L b in
                     if err \<noteq> None then Value (0, 0)
                     else Value (to_int L current, to_int L tot))))
      | None \<Rightarrow> Value (0, 0))"

subsection \<open>The played-check (playcount.go)\<close>

definition songPlayedThresholdSeconds :: go_int where
  "songPlayedThresholdSeconds = 10"

definition considerSongPlayed :: "'f floats \<Rightarrow> Info \<Rightarrow> go_int \<Rightarrow> bool result" where
  "considerSongPlayed L statusInfo limit =
     (case Progress L statusInfo of
        Panics m u \<Rightarrow> Panics m u
      | Blocks u \<Rightarrow> Blocks u
      | Returns (current, tot) _ \<Rightarrow>
          (if tot = 0 \<or> current = 0 then Value False
           else Value ((tot - current) <s limit)))"

subsection \<open>strconv.Atoi and strconv.Itoa\<close>

text \<open>
  Go's library, written out for base 10 and 64 bits. \<open>ParseUint10\<close> is the digit loop of
  \<open>strconv.ParseUint\<close>: it stops at the first byte that is no digit (syntax error) or
  at the first digit that overflows (range error), whichever comes first. Atoi's fast
  path for short strings gives the same results as the general path modelled here.
\<close>

definition digit_val :: "char \<Rightarrow> nat option" where
  "digit_val c =
     (let n = (of_char c :: nat) in if 48 \<le> n \<and> n \<le> 57 then Some (n - 48) else None)"

definition maxUint64 :: nat where
  "maxUint64 = 2 ^ 64 - 1"

fun ParseUint10 :: "string \<Rightarrow> nat \<Rightarrow> nat \<times> num_err option" where
  "ParseUint10 [] n = (n, None)"
| "ParseUint10 (c # cs) n =
     (case digit_val c of
        None \<Rightarrow> (0, Some ErrSyntax)
      | Some d \<Rightarrow>
          if n \<ge> maxUint64 div 10 + 1 then (maxUint64, Some ErrRange)
          else if n * 10 + d > maxUint64 then (maxUint64, Some ErrRange)
          else ParseUint10 cs (n * 10 + d))"

definition Atoi :: "string \<Rightarrow> go_int \<times> go_error option" where
  "Atoi s0 =
     (if s0 = [] then (0, Some (NumError ''Atoi'' s0 ErrSyntax))
      else
        (let neg = (hd s0 = CHR ''-'');
             s = (if hd s0 = CHR ''+'' \<or> hd s0 = CHR ''-'' then tl s0 else s0)
         in if s = [] then (0, Some (NumError ''Atoi'' s0 ErrSyntax))
            else
              (case ParseUint10 s 0 of
                 (un, Some ErrSyntax) \<Rightarrow> (0, Some (NumError ''Atoi'' s0 ErrSyntax))
               | (un, _) \<Rightarrow>
                   if \<not> neg \<and> un \<ge> 2 ^ 63
                     then (word_of_nat (2 ^ 63 - 1), Some (NumError ''Atoi'' s0 ErrRange))
                   else if neg \<and> un > 2 ^ 63
                     then (- word_of_nat (2 ^ 63), Some (NumError ''Atoi'' s0 ErrRange))
                   else (if neg then - word_of_nat un else word_of_nat un, None))))"

fun digits10 :: "nat \<Rightarrow> string" where
  "digits10 n =
     (if n < 10 then [char_of (48 + n)]
      else digits10 (n div 10) @ [char_of (48 + n mod 10)])"

declare digits10.simps [simp del]

definition Itoa :: "go_int \<Rightarrow> string" where
  "Itoa i = (if sint i < 0 then CHR ''-'' # digits10 (nat (- sint i)) else digits10 (nat (sint i)))"

text \<open>
  A sample of the float library for running the model on statuses whose times are whole
  seconds in plain digits, as MPD reports them: on such a text ParseFloat yields that
  number. Every other text is reported as a syntax error here, which is narrower than
  Go's library; the general statements below hold for every library.
\<close>

definition whole_seconds :: "nat floats" where
  "whole_seconds =
     \<lparr> ParseFloat = (\<lambda>s. if s = [] then (0, Some (NumError ''ParseFloat'' s ErrSyntax))
                          else (case ParseUint10 s 0 of
                                  (n, None) \<Rightarrow> (n, None)
                                | (n, Some e) \<Rightarrow> (0, Some (NumError ''ParseFloat'' s e)))),
       to_int = word_of_nat \<rparr>"

text \<open>\<open>Info.AddInfo\<close> (client.go). The two slices lie within \<open>data\<close> once the separator
  was found, so they are \<open>take\<close> and \<open>drop\<close>.\<close>

definition AddInfo :: "Info \<Rightarrow> string \<Rightarrow> go_error option \<times> Info" where
  "AddInfo info data =
     (let fieldSepIndex = strings_Index data infoFieldSep in
      if fieldSepIndex = - 1 then (Some (ErrorString (''Invalid input: '' @ data)), info)
      else
        (let key = take (nat fieldSepIndex) data
         in (None, info(key \<mapsto> drop (nat fieldSepIndex + length infoFieldSep) data))))"

text \<open>\<open>isMPDError\<close> (client.go).\<close>

definition isMPDError :: "string \<Rightarrow> bool" where
  "isMPDError line = (strings_Index line ''ACK'' \<noteq> - 1)"

subsection \<open>The sticker pattern\<close>

text \<open>
  \<open>stickerGetRegexp = regexp.MustCompile("sticker: (.+)=(.*)")\<close> and its
  \<open>FindStringSubmatch\<close>, written out for this one pattern: the leftmost place where
  \<open>sticker: \<close> is followed, on the same line, by at least one character and an
  \<open>=\<close>; the first group is greedy, so it runs to the last \<open>=\<close> of that line, and
  the second group is the rest of the line. \<open>.\<close> matches everything but a newline.
  The result is the list of the whole match and the two groups, as in Go.
\<close>

definition newline :: char where
  "newline = CHR 0x0A"

fun last_eq :: "string \<Rightarrow> nat option" where
  "last_eq [] = None"
| "last_eq (c # cs) =
     (case last_eq cs of
        Some j \<Rightarrow> Some (Suc j)
      | None \<Rightarrow> if c = CHR ''='' then Some 0 else None)"

definition match_here :: "string \<Rightarrow> string list option" where
  "match_here s =
     (if prefix ''sticker: '' s then
        (let seg = takeWhile (\<lambda>c. c \<noteq> newline) (drop 9 s) in
         case last_eq seg of
           None \<Rightarrow> None
         | Some j \<Rightarrow>
             if j = 0 then None
             else Some [''sticker: '' @ seg, take j seg, drop (Suc j) seg])
      else None)"

fun FindStringSubmatch :: "string \<Rightarrow> string list option" where
  "FindStringSubmatch [] = None"
| "FindStringSubmatch (c # cs) =
     (case match_here (c # cs) of
        Some m \<Rightarrow> Some m
      | None \<Rightarrow> FindStringSubmatch cs)"

section \<open>The connection (net/textproto)\<close>

text \<open>
  \<open>textproto.Conn\<close> as the client uses it. \<open>sent\<close> lists the texts handed to
  \<open>Conn.Cmd\<close> whose write succeeded, oldest first (Cmd takes its text as a Printf
  format; a text without \<open>%\<close> goes to the wire as it is). \<open>unread\<close> lists what the
  coming calls of \<open>ReadLine\<close> return, a line and an error each; when it is used up the
  peer is silent and ReadLine does not return. \<open>wfail\<close> lists the outcomes of the
  coming writes; when it is used up every write succeeds. \<open>next_id\<close> is the
  pipeline's counter and \<open>resp_id\<close> the id whose response may start. The request
  sequencer is left out: Cmd starts and ends each request itself, so it never waits there.
\<close>

record conn =
  sent :: "string list"
  unread :: "(string \<times> go_error option) list"
  wfail :: "go_error option list"
  next_id :: go_uint
  resp_id :: go_uint

definition conn_Cmd :: "string \<Rightarrow> conn \<Rightarrow> (go_uint \<times> go_error option, conn) outcome" where
  "conn_Cmd text c =
     (let rid = next_id c; c1 = c\<lparr>next_id := rid + 1\<rparr> in
      case wfail c1 of
        [] \<Rightarrow> Returns (rid, None) (c1\<lparr>sent := sent c1 @ [text]\<rparr>)
      | None # ws \<Rightarrow> Returns (rid, None) (c1\<lparr>sent := sent c1 @ [text], wfail := ws\<rparr>)
      | Some e # ws \<Rightarrow> Returns (0, Some e) (c1\<lparr>wfail := ws\<rparr>))"

definition StartResponse :: "go_uint \<Rightarrow> conn \<Rightarrow> (unit, conn) outcome" where
  "StartResponse rid c = (if resp_id c = rid then Returns () c else Blocks c)"

definition EndResponse :: "go_uint \<Rightarrow> conn \<Rightarrow> (unit, conn) outcome" where
  "EndResponse rid c =
     (if resp_id c \<noteq> rid then Panics (RuntimeError ''out of sync'') c
      else Returns () (c\<lparr>resp_id := rid + 1\<rparr>))"

definition ReadLine :: "conn \<Rightarrow> (string \<times> go_error option, conn) outcome" where
  "ReadLine c =
     (case unread c of
        [] \<Rightarrow> Blocks c
      | r # rest \<Rightarrow> Returns r (c\<lparr>unread := rest\<rparr>))"

section \<open>The command client (client.go)\<close>

text \<open>The methods below use only the \<open>conn\<close> field of \<open>MPDClient\<close>; they are
  written on the connection. What the code prints or logs is left out.\<close>

definition noIdle :: "conn \<Rightarrow> (go_error option, conn) outcome" where
  "noIdle =
     bind (conn_Cmd ''noidle'') (\<lambda>(rid, err).
       case err of
         Some e \<Rightarrow> ret (Some e)
       | None \<Rightarrow>
           bind (StartResponse rid) (\<lambda>_.
             deferring (EndResponse rid) (ret None)))"

definition Cmd :: "string \<Rightarrow> conn \<Rightarrow> (go_uint \<times> go_error option, conn) outcome" where
  "Cmd cmd =
     bind noIdle (\<lambda>err.
       case err of
         Some e \<Rightarrow> ret (0, Some e)
       | None \<Rightarrow>
           bind (conn_Cmd cmd) (\<lambda>(rid, err).
             case err of
               Some e \<Rightarrow> ret (rid, Some e)
             | None \<Rightarrow> ret (rid, None)))"

definition startResponse :: "go_uint \<Rightarrow> conn \<Rightarrow> (unit, conn) outcome" where
  "startResponse rid = StartResponse rid"

definition endResponse :: "go_uint \<Rightarrow> conn \<Rightarrow> (unit, conn) outcome" where
  "endResponse rid = EndResponse rid"

function fillInfoUntilOK :: "Info \<Rightarrow> conn \<Rightarrow> (go_error option \<times> Info, conn) outcome" where
  "fillInfoUntilOK info c =
     (case ReadLine c of
        Blocks c1 \<Rightarrow> Blocks c1
      | Panics m c1 \<Rightarrow> Panics m c1
      | Returns (line, err) c1 \<Rightarrow>
          (case err of
             Some e \<Rightarrow> Returns (Some e, info) c1
           | None \<Rightarrow>
               if line = ''OK'' then Returns (None, info) c1
               else
                 (case AddInfo info line of
                    (Some e, info1) \<Rightarrow> Returns (Some e, info1) c1
                  | (None, info1) \<Rightarrow> fillInfoUntilOK info1 c1)))"
  by pat_completeness auto
termination
  by (relation "measure (\<lambda>(info, c). length (unread c))")
     (auto simp: ReadLine_def split: list.splits)

declare fillInfoUntilOK.simps [simp del]

definition Status :: "conn \<Rightarrow> (go_error + Info, conn) outcome" where
  "Status =
     bind (Cmd ''status'') (\<lambda>(rid, err).
       case err of
         Some e \<Rightarrow> ret (Inl e)
       | None \<Rightarrow>
           bind (startResponse rid) (\<lambda>_.
             deferring (endResponse rid)
               (bind (fillInfoUntilOK Map.empty) (\<lambda>(err, info).
                  case err of
                    Some e \<Rightarrow> ret (Inl e)
                  | None \<Rightarrow> ret (Inr info)))))"

definition CurrentSong :: "conn \<Rightarrow> (go_error + Info, conn) outcome" where
  "CurrentSong =
     bind (Cmd ''currentsong'') (\<lambda>(rid, err).
       case err of
         Some e \<Rightarrow> ret (Inl e)
       | None \<Rightarrow>
           bind (startResponse rid) (\<lambda>_.
             deferring (endResponse rid)
               (bind (fillInfoUntilOK Map.empty) (\<lambda>(err, info).
                  case err of
                    Some e \<Rightarrow> ret (Inl e)
                  | None \<Rightarrow> ret (Inr info)))))"

text \<open>The command texts, as \<open>fmt.Sprintf\<close> builds them from its \<open>%s\<close> operands.\<close>

definition quoted :: "string \<Rightarrow> string" where
  "quoted s = CHR 0x22 # s @ [CHR 0x22]"

definition StickerSongType :: string where
  "StickerSongType = ''song''"

definition sticker_get_cmd :: "string \<Rightarrow> string \<Rightarrow> string \<Rightarrow> string" where
  "sticker_get_cmd stype uri stickerName =
     ''sticker get '' @ quoted stype @ '' '' @ quoted uri @ '' '' @ quoted stickerName"

definition sticker_set_cmd :: "string \<Rightarrow> string \<Rightarrow> string \<Rightarrow> string \<Rightarrow> string" where
  "sticker_set_cmd stype uri stickerName v =
     ''sticker set '' @ quoted stype @ '' '' @ quoted uri @ '' '' @ quoted stickerName
       @ '' '' @ quoted v"

text \<open>\<open>MPDClient.StickerGet\<close>. The error of the first ReadLine is not looked at.\<close>

definition StickerGet :: "string \<Rightarrow> string \<Rightarrow> string \<Rightarrow> conn \<Rightarrow> (string \<times> go_error option, conn) outcome" where
  "StickerGet stype uri stickerName =
     bind (Cmd (sticker_get_cmd stype uri stickerName)) (\<lambda>(rid, err).
       case err of
         Some e \<Rightarrow> ret ([], Some e)
       | None \<Rightarrow>
           bind (startResponse rid) (\<lambda>_.
             deferring (endResponse rid)
               (bind ReadLine (\<lambda>(line, err).
                  case FindStringSubmatch line of
                    None \<Rightarrow>
                      if \<not> isMPDError line then ret ([], None)
                      else if strings_Index line ''no such sticker'' \<noteq> - 1 then ret ([], None)
                      else ret ([], Some (ErrorString (''StickerGet: '' @ line)))
                  | Some match \<Rightarrow>
                      (let v = match ! 2 in
                       bind ReadLine (\<lambda>(okLine, err).
                         case err of
                           Some e \<Rightarrow> ret ([], Some e)
                         | None \<Rightarrow>
                             if okLine \<noteq> ''OK''
                             then ret ([], Some (ErrorString
                                    (''StickerGet didn't receive OK line: '' @ okLine)))
                             else ret (v, None)))))))"

text \<open>\<open>MPDClient.StickerSet\<close>. The error of ReadLine is not looked at.\<close>

definition StickerSet :: "string \<Rightarrow> string \<Rightarrow> string \<Rightarrow> string \<Rightarrow> conn \<Rightarrow> (go_error option, conn) outcome" where
  "StickerSet stype uri stickerName v =
     bind (Cmd (sticker_set_cmd stype uri stickerName v)) (\<lambda>(rid, err).
       case err of
         Some e \<Rightarrow> ret (Some e)
       | None \<Rightarrow>
           bind (startResponse rid) (\<lambda>_.
             deferring (endResponse rid)
               (bind ReadLine (\<lambda>(line, err).
                  if line \<noteq> ''OK'' then ret (Some (ErrorString (''StickerSet: '' @ line)))
                  else ret None))))"

subsection \<open>Subscriptions and one round of the idle loop\<close>

text \<open>
  A channel of strings: the values it has handed over, in order, and whether it is
  closed. A send on an open channel is taken to meet its receiver; a send on a closed
  channel and a second close panic, as in Go.
\<close>

record chan =
  delivered :: "string list"
  closed :: bool

definition chan_send :: "string \<Rightarrow> chan \<Rightarrow> (unit, chan) outcome" where
  "chan_send v k =
     (if closed k then Panics (RuntimeError ''send on closed channel'') k
      else Returns () (k\<lparr>delivered := delivered k @ [v]\<rparr>))"

definition chan_close :: "chan \<Rightarrow> (unit, chan) outcome" where
  "chan_close k =
     (if closed k then Panics (RuntimeError ''close of closed channel'') k
      else Returns () (k\<lparr>closed := True\<rparr>))"

record idleSubscription =
  ch :: chan
  active :: bool
  subsystems :: "string list"

definition on_ch :: "(chan \<Rightarrow> ('a, chan) outcome) \<Rightarrow> idleSubscription \<Rightarrow> ('a, idleSubscription) outcome" where
  "on_ch f sub =
     (case f (ch sub) of
        Returns a k \<Rightarrow> Returns a (sub\<lparr>ch := k\<rparr>)
      | Blocks k \<Rightarrow> Blocks (sub\<lparr>ch := k\<rparr>)
      | Panics m k \<Rightarrow> Panics m (sub\<lparr>ch := k\<rparr>))"

text \<open>\<open>idleSubscription.Close\<close>.\<close>

definition Close_subscription :: "idleSubscription \<Rightarrow> (unit, idleSubscription) outcome" where
  "Close_subscription =
     bind (on_ch chan_close) (\<lambda>_ sub. Returns () (sub\<lparr>active := False\<rparr>))"

text \<open>The loop over \<open>subscription.subsystems\<close> in \<open>idle\<close>; it has no \<open>break\<close>.\<close>

fun wanted_loop :: "string \<Rightarrow> string list \<Rightarrow> idleSubscription \<Rightarrow> (unit, idleSubscription) outcome" where
  "wanted_loop subsystem [] = ret ()"
| "wanted_loop subsystem (wantedSubsystem # ws) =
     (if wantedSubsystem = subsystem
      then bind (on_ch (chan_send subsystem)) (\<lambda>_.
             bind Close_subscription (\<lambda>_. wanted_loop subsystem ws))
      else wanted_loop subsystem ws)"

text \<open>The body of the loop over \<open>c.subscriptions\<close> in \<open>idle\<close>.\<close>

definition notify :: "string \<Rightarrow> idleSubscription \<Rightarrow> (unit, idleSubscription) outcome" where
  "notify subsystem sub =
     (if active sub = True then
        (if length (subsystems sub) = 0
         then bind (on_ch (chan_send subsystem)) (\<lambda>_. Close_subscription) sub
         else wanted_loop subsystem (subsystems sub) sub)
      else Returns () sub)"

fun dispatch :: "string \<Rightarrow> idleSubscription list \<Rightarrow> (unit, idleSubscription list) outcome" where
  "dispatch subsystem [] = Returns () []"
| "dispatch subsystem (sub # rest) =
     (case notify subsystem sub of
        Returns _ sub1 \<Rightarrow>
          (case dispatch subsystem rest of
             Returns _ rest1 \<Rightarrow> Returns () (sub1 # rest1)
           | Blocks rest1 \<Rightarrow> Blocks (sub1 # rest1)
           | Panics m rest1 \<Rightarrow> Panics m (sub1 # rest1))
      | Blocks sub1 \<Rightarrow> Blocks (sub1 # rest)
      | Panics m sub1 \<Rightarrow> Panics m (sub1 # rest))"

text \<open>\<open>MPDClient\<close>, without the quit channel and the condition variable, which only
  the goroutines of the idle loop use.\<close>

record MPDClient =
  Host :: string
  Port :: go_uint
  conn :: conn
  subscriptions :: "idleSubscription list"

definition on_conn :: "(conn \<Rightarrow> ('a, conn) outcome) \<Rightarrow> MPDClient \<Rightarrow> ('a, MPDClient) outcome" where
  "on_conn f cl =
     (case f (conn cl) of
        Returns a c \<Rightarrow> Returns a (cl\<lparr>conn := c\<rparr>)
      | Blocks c \<Rightarrow> Blocks (cl\<lparr>conn := c\<rparr>)
      | Panics m c \<Rightarrow> Panics m (cl\<lparr>conn := c\<rparr>))"

definition on_subscriptions :: "(idleSubscription list \<Rightarrow> ('a, idleSubscription list) outcome) \<Rightarrow> MPDClient \<Rightarrow> ('a, MPDClient) outcome" where
  "on_subscriptions f cl =
     (case f (subscriptions cl) of
        Returns a ss \<Rightarrow> Returns a (cl\<lparr>subscriptions := ss\<rparr>)
      | Blocks ss \<Rightarrow> Blocks (cl\<lparr>subscriptions := ss\<rparr>)
      | Panics m ss \<Rightarrow> Panics m (cl\<lparr>subscriptions := ss\<rparr>))"

text \<open>\<open>MPDClient.Idle\<close>: a new subscription, appended to the list.\<close>

definition Idle :: "string list \<Rightarrow> MPDClient \<Rightarrow> MPDClient" where
  "Idle subsystems_arg cl =
     cl\<lparr>subscriptions := subscriptions cl @
          [\<lparr>ch = \<lparr>delivered = [], closed = False\<rparr>, active = True,
            subsystems = subsystems_arg\<rparr>]\<rparr>"

text \<open>
  One pass through the body of the loop of \<open>MPDClient.idle\<close>, from the \<open>idle\<close> command
  to the end of the dispatch. The wait on the condition variable and the quit channel
  before the pass, and the \<open>recover\<close> that ends the loop after a panic, are outside.
\<close>

definition idle_round :: "MPDClient \<Rightarrow> (unit, MPDClient) outcome" where
  "idle_round =
     bind (on_conn (conn_Cmd ''idle'')) (\<lambda>(rid, err).
       case err of
         Some e \<Rightarrow> Panics (ErrorValue e)
       | None \<Rightarrow>
           bind (on_conn (StartResponse rid)) (\<lambda>_.
             bind (on_conn (fillInfoUntilOK Map.empty)) (\<lambda>(err, info).
               bind (on_conn (EndResponse rid)) (\<lambda>_.
                 case err of
                   Some e \<Rightarrow> Panics (ErrorValue e)
                 | None \<Rightarrow>
                     (case info ''changed'' of
                        Some subsystem \<Rightarrow> on_subscriptions (dispatch subsystem)
                      | None \<Rightarrow> ret ())))))"

text \<open>
  \<open>Connect\<close>. The outcome of \<open>textproto.Dial\<close> is a parameter: an error, or the new
  connection with what the peer is going to send.
\<close>

definition Connect :: "string \<Rightarrow> go_uint \<Rightarrow> go_error + conn \<Rightarrow> (go_error + MPDClient) result" where
  "Connect host port dialed =
     (case dialed of
        Inl e \<Rightarrow> Value (Inl e)
      | Inr c \<Rightarrow>
          (case ReadLine c of
             Blocks _ \<Rightarrow> Blocks ()
           | Panics m _ \<Rightarrow> Panic m
           | Returns (line, err) c1 \<Rightarrow>
               (case err of
                  Some e \<Rightarrow> Value (Inl e)
                | None \<Rightarrow>
                    (case go_slice line 0 6 of
                       Panics m _ \<Rightarrow> Panic m
                     | Blocks _ \<Rightarrow> Blocks ()
                     | Returns p _ \<Rightarrow>
                         if p \<noteq> ''OK MPD'' then Value (Inl (ErrorString ''MPD: not OK''))
                         else Value (Inr \<lparr>Host = host, Port = port, conn = c1,
                                          subscriptions = []\<rparr>)))))"

section \<open>The playcount tracker (playcount.go)\<close>

definition playcountSticker :: string where
  "playcountSticker = ''playcount''"

record songStatusInfo =
  StatusInfo :: Info
  SongInfo :: Info

definition incSongPlayCount :: "Info \<Rightarrow> conn \<Rightarrow> (go_int \<times> go_error option, conn) outcome" where
  "incSongPlayCount songInfo =
     bind (StickerGet StickerSongType (at songInfo ''file'') playcountSticker) (\<lambda>(v, err).
       case err of
         Some e \<Rightarrow> ret (- 1, Some e)
       | None \<Rightarrow>
           (let v1 = (if length v = 0 then ''0'' else v) in
            case Atoi v1 of
              (intval, Some e) \<Rightarrow> ret (- 1, Some e)
            | (intval, None) \<Rightarrow>
                (let intval1 = intval + 1 in
                 bind (StickerSet StickerSongType (at songInfo ''file'') playcountSticker
                         (Itoa intval1))
                   (\<lambda>err. ret (intval1, err)))))"

definition checkSongChange :: "'f floats \<Rightarrow> songStatusInfo \<Rightarrow> conn \<Rightarrow> (go_error option \<times> songStatusInfo, conn) outcome" where
  "checkSongChange L si =
     bind Status (\<lambda>r.
       case r of
         Inl e \<Rightarrow> ret (Some e, si)
       | Inr info \<Rightarrow>
           if at info ''songid'' \<noteq> at (StatusInfo si) ''songid'' then
             (case considerSongPlayed L (StatusInfo si) songPlayedThresholdSeconds of
                Panics m _ \<Rightarrow> Panics m
              | Blocks _ \<Rightarrow> Blocks
              | Returns played _ \<Rightarrow>
                  if played then
                    bind (incSongPlayCount (SongInfo si)) (\<lambda>(playcount, err).
                      case err of
                        Some e \<Rightarrow> ret (Some e, si)
                      | None \<Rightarrow> ret (None, si\<lparr>StatusInfo := info\<rparr>))
                  else ret (None, si\<lparr>StatusInfo := info\<rparr>))
           else ret (None, si\<lparr>StatusInfo := info\<rparr>))"

definition updateSongInfo :: "songStatusInfo \<Rightarrow> conn \<Rightarrow> (go_error option \<times> songStatusInfo, conn) outcome" where
  "updateSongInfo si =
     bind CurrentSong (\<lambda>r.
       case r of
         Inl e \<Rightarrow> ret (Some e, si)
       | Inr songInfo \<Rightarrow> ret (None, si\<lparr>SongInfo := songInfo\<rparr>))"

definition processStateUpdate :: "'f floats \<Rightarrow> songStatusInfo \<Rightarrow> conn \<Rightarrow> (go_error option \<times> songStatusInfo, conn) outcome" where
  "processStateUpdate L si =
     bind (checkSongChange L si) (\<lambda>(err, si1).
       case err of
         Some e \<Rightarrow> ret (Some e, si1)
       | None \<Rightarrow>
           bind (updateSongInfo si1) (\<lambda>(err, si2).
             case err of
               Some e \<Rightarrow> ret (Some e, si2)
             | None \<Rightarrow> ret (None, si2)))"

section \<open>Notions used in the statements\<close>

text \<open>A fresh connection on which the peer is going to send the given lines.\<close>

definition sample_conn :: "(string \<times> go_error option) list \<Rightarrow> conn" where
  "sample_conn lines = \<lparr>sent = [], unread = lines, wfail = [], next_id = 0, resp_id = 0\<rparr>"

text \<open>No write that is still to come fails.\<close>

definition writes_ok :: "conn \<Rightarrow> bool" where
  "writes_ok c = (set (wfail c) \<subseteq> {None})"

text \<open>Every response of the commands issued so far has been ended: the next command's
  response can start at once.\<close>

definition in_sync :: "conn \<Rightarrow> bool" where
  "in_sync c = (resp_id c = next_id c)"

text \<open>The connection after \<open>Cmd cmd\<close> went through: \<open>noidle\<close> and \<open>cmd\<close> are written,
  the response of \<open>noidle\<close> is ended, that of \<open>cmd\<close> may start.\<close>

definition issued :: "string \<Rightarrow> conn \<Rightarrow> conn" where
  "issued cmd c =
     c\<lparr>next_id := next_id c + 2, sent := sent c @ [''noidle'', cmd],
       wfail := tl (tl (wfail c)), resp_id := next_id c + 1\<rparr>"

text \<open>The connection after a command whose response was read up to \<open>rest\<close> and ended.\<close>

definition answered :: "string \<Rightarrow> (string \<times> go_error option) list \<Rightarrow> conn \<Rightarrow> conn" where
  "answered cmd rest c =
     c\<lparr>next_id := next_id c + 2, sent := sent c @ [''noidle'', cmd],
       wfail := tl (tl (wfail c)), resp_id := next_id c + 2, unread := rest\<rparr>"

text \<open>The two sticker commands of the play counter of a song.\<close>

definition get_playcount :: "Info \<Rightarrow> string" where
  "get_playcount songInfo = sticker_get_cmd StickerSongType (at songInfo ''file'') playcountSticker"

definition set_playcount :: "Info \<Rightarrow> string \<Rightarrow> string" where
  "set_playcount songInfo v = sticker_set_cmd StickerSongType (at songInfo ''file'') playcountSticker v"

text \<open>
  The one-shot rule in the words of the specification: a subscription that is active and
  whose interest set is empty or holds the reported name gets the name once and is
  closed; every other subscription stays as it is.
\<close>

definition fulfilled :: "string \<Rightarrow> idleSubscription \<Rightarrow> idleSubscription" where
  "fulfilled name sub =
     sub\<lparr>ch := (ch sub)\<lparr>delivered := delivered (ch sub) @ [name], closed := True\<rparr>,
         active := False\<rparr>"

definition one_shot :: "string \<Rightarrow> idleSubscription \<Rightarrow> idleSubscription" where
  "one_shot name sub =
     (if active sub \<and> (subsystems sub = [] \<or> name \<in> set (subsystems sub))
      then fulfilled name sub else sub)"

text \<open>The connection after one \<open>idle\<close> command whose reply was read up to \<open>rest\<close>.\<close>

definition idled :: "(string \<times> go_error option) list \<Rightarrow> conn \<Rightarrow> conn" where
  "idled rest c =
     c\<lparr>next_id := next_id c + 1, sent := sent c @ [''idle''], wfail := tl (wfail c),
       unread := rest, resp_id := next_id c + 1\<rparr>"

text \<open>
  The song changed and the previous one was played: the fresh status has another song id
  than the recorded status, and the played-check on the recorded status is true.
\<close>

definition changed_and_played :: "'f floats \<Rightarrow> songStatusInfo \<Rightarrow> conn \<Rightarrow> bool" where
  "changed_and_played L si c =
     (\<exists>info c1. Status c = Returns (Inr info) c1
        \<and> at info ''songid'' \<noteq> at (StatusInfo si) ''songid''
        \<and> considerSongPlayed L (StatusInfo si) songPlayedThresholdSeconds = Value True)"

text \<open>
  A tracker that recorded song 1 at 118 of 120 seconds, and two connections: on the
  first the daemon reports song 2 and answers the sticker commands, on the second it
  still reports song 1.
\<close>

definition sample_tracker :: songStatusInfo where
  "sample_tracker =
     \<lparr>StatusInfo = [''songid'' \<mapsto> ''1'', ''time'' \<mapsto> ''118:120''],
      SongInfo = [''file'' \<mapsto> ''a.mp3'']\<rparr>"

definition song_ended :: conn where
  "song_ended = sample_conn
     [(''songid: 2'', None), (''time: 0:200'', None), (''OK'', None),
      (''sticker: playcount=41'', None), (''OK'', None),
      (''OK'', None),
      (''file: b.mp3'', None), (''OK'', None)]"

definition same_song :: conn where
  "same_song = sample_conn
     [(''songid: 1'', None), (''time: 119:120'', None), (''OK'', None),
      (''file: a.mp3'', None), (''OK'', None)]"

section \<open>A command during the wait: two goroutines on one connection\<close>

text \<open>
  The connection is in the wait when the goroutine that runs \<open>idle\<close> has issued the
  \<open>idle\<close> command with pipeline id \<open>k\<close>, has started its response and reads the
  reply. Another goroutine then calls \<open>Cmd\<close> and reads the response of its command.
  Each goroutine moves by one call of the connection at a time; a call that has to wait
  (\<open>StartResponse\<close> for another id, \<open>ReadLine\<close> on a silent peer) is no move. The
  places of the reader are those of \<open>fillInfoUntilOK\<close> and the \<open>EndResponse\<close> after it
  in \<open>idle\<close>; the places of the caller are those of \<open>noIdle\<close> and \<open>Cmd\<close>, followed by
  the \<open>startResponse\<close> and the reads of the method that called \<open>Cmd\<close>. After its pass
  the reader waits on the condition variable, which nothing in the repository signals.
\<close>

datatype idle_pc =
    I_reading Info
  | I_ending "go_error option" Info
  | I_done "go_error option" Info
  | I_out_of_sync

datatype cmd_pc =
    U_noidle
  | U_start_noidle go_uint
  | U_end_noidle go_uint
  | U_cmd
  | U_start go_uint
  | U_reading go_uint "(string \<times> go_error option) list"
  | U_failed go_error
  | U_out_of_sync

text \<open>One move of the reader: a line of the reply, or the end of its response.\<close>

fun idle_step :: "go_uint \<Rightarrow> idle_pc \<Rightarrow> conn \<Rightarrow> (idle_pc \<times> conn) option" where
  "idle_step k (I_reading info) c =
     (case ReadLine c of
        Returns (line, err) c1 \<Rightarrow>
          (case err of
             Some e \<Rightarrow> Some (I_ending (Some e) info, c1)
           | None \<Rightarrow>
               if line = ''OK'' then Some (I_ending None info, c1)
               else
                 (case AddInfo info line of
                    (Some e, info1) \<Rightarrow> Some (I_ending (Some e) info1, c1)
                  | (None, info1) \<Rightarrow> Some (I_reading info1, c1)))
      | Blocks _ \<Rightarrow> None
      | Panics _ _ \<Rightarrow> None)"
| "idle_step k (I_ending err info) c =
     (case EndResponse k c of
        Returns _ c1 \<Rightarrow> Some (I_done err info, c1)
      | Blocks _ \<Rightarrow> None
      | Panics _ c1 \<Rightarrow> Some (I_out_of_sync, c1))"
| "idle_step k (I_done err info) c = None"
| "idle_step k I_out_of_sync c = None"

text \<open>One move of the caller.\<close>

fun cmd_step :: "string \<Rightarrow> cmd_pc \<Rightarrow> conn \<Rightarrow> (cmd_pc \<times> conn) option" where
  "cmd_step cmd U_noidle c =
     (case conn_Cmd ''noidle'' c of
        Returns (rid, err) c1 \<Rightarrow>
          (case err of Some e \<Rightarrow> Some (U_failed e, c1) | None \<Rightarrow> Some (U_start_noidle rid, c1))
      | Blocks _ \<Rightarrow> None
      | Panics _ _ \<Rightarrow> None)"
| "cmd_step cmd (U_start_noidle rid) c =
     (case StartResponse rid c of
        Returns _ c1 \<Rightarrow> Some (U_end_noidle rid, c1)
      | Blocks _ \<Rightarrow> None
      | Panics _ _ \<Rightarrow> None)"
| "cmd_step cmd (U_end_noidle rid) c =
     (case EndResponse rid c of
        Returns _ c1 \<Rightarrow> Some (U_cmd, c1)
      | Blocks _ \<Rightarrow> None
      | Panics _ c1 \<Rightarrow> Some (U_out_of_sync, c1))"
| "cmd_step cmd U_cmd c =
     (case conn_Cmd cmd c of
        Returns (rid, err) c1 \<Rightarrow>
          (case err of Some e \<Rightarrow> Some (U_failed e, c1) | None \<Rightarrow> Some (U_start rid, c1))
      | Blocks _ \<Rightarrow> None
      | Panics _ _ \<Rightarrow> None)"
| "cmd_step cmd (U_start rid) c =
     (case startResponse rid c of
        Returns _ c1 \<Rightarrow> Some (U_reading rid [], c1)
      | Blocks _ \<Rightarrow> None
      | Panics _ _ \<Rightarrow> None)"
| "cmd_step cmd (U_reading rid seen) c =
     (case ReadLine c of
        Returns r c1 \<Rightarrow> Some (U_reading rid (seen @ [r]), c1)
      | Blocks _ \<Rightarrow> None
      | Panics _ _ \<Rightarrow> None)"
| "cmd_step cmd (U_failed e) c = None"
| "cmd_step cmd U_out_of_sync c = None"

record world =
  wire :: conn
  idler :: idle_pc
  caller :: cmd_pc

text \<open>One move of the two goroutines together: either of them moves.\<close>

definition step :: "go_uint \<Rightarrow> string \<Rightarrow> world \<Rightarrow> world \<Rightarrow> bool" where
  "step k cmd w w1 =
     ((case idle_step k (idler w) (wire w) of
         Some (p, c) \<Rightarrow> w1 = w\<lparr>wire := c, idler := p\<rparr>
       | None \<Rightarrow> False)
      \<or> (case cmd_step cmd (caller w) (wire w) of
           Some (p, c) \<Rightarrow> w1 = w\<lparr>wire := c, caller := p\<rparr>
         | None \<Rightarrow> False))"

text \<open>The wait on connection \<open>c\<close>: the \<open>idle\<close> command has id \<open>k\<close>.\<close>

definition waiting :: "go_uint \<Rightarrow> conn \<Rightarrow> world" where
  "waiting k c = \<lparr>wire = c\<lparr>next_id := k + 1, resp_id := k\<rparr>, idler = I_reading Map.empty, caller = U_noidle\<rparr>"

text \<open>
  The number of lines that make up the reply to the wait: the lines up to the first
  \<open>OK\<close>, or up to the first line that ends the reader's loop with an error.
\<close>

fun reply_length :: "(string \<times> go_error option) list \<Rightarrow> nat" where
  "reply_length [] = 0"
| "reply_length ((line, err) # rest) =
     (if err \<noteq> None \<or> line = ''OK'' \<or> strings_Index line infoFieldSep = - 1 then 1
      else Suc (reply_length rest))"

text \<open>What holds at every place of the two goroutines (used in the proofs).\<close>

definition finished :: "idle_pc \<Rightarrow> bool" where
  "finished p = (case p of I_done _ _ \<Rightarrow> True | _ \<Rightarrow> False)"

definition idle_view :: "go_uint \<Rightarrow> (string \<times> go_error option) list \<Rightarrow> idle_pc \<Rightarrow> conn \<Rightarrow> bool" where
  "idle_view k stream p c =
     (case p of
        I_reading info \<Rightarrow>
          resp_id c = k
          \<and> (\<exists>n. n \<le> length stream \<and> unread c = drop n stream
                \<and> reply_length stream = n + reply_length (unread c))
      | I_ending err info \<Rightarrow>
          resp_id c = k \<and> unread c = drop (reply_length stream) stream
      | I_done err info \<Rightarrow> True
      | I_out_of_sync \<Rightarrow> False)"

definition cmd_view :: "go_uint \<Rightarrow> (string \<times> go_error option) list \<Rightarrow> string list \<Rightarrow> string \<Rightarrow> idle_pc \<Rightarrow> cmd_pc \<Rightarrow> conn \<Rightarrow> bool" where
  "cmd_view k stream sent0 cmd ip p c =
     (case p of
        U_noidle \<Rightarrow>
          next_id c = k + 1 \<and> sent c = sent0
          \<and> (finished ip \<longrightarrow> resp_id c = k + 1 \<and> unread c = drop (reply_length stream) stream)
      | U_start_noidle rid \<Rightarrow>
          rid = k + 1 \<and> next_id c = k + 2 \<and> sent c = sent0 @ [''noidle'']
          \<and> (finished ip \<longrightarrow> resp_id c = k + 1 \<and> unread c = drop (reply_length stream) stream)
      | U_end_noidle rid \<Rightarrow>
          finished ip \<and> rid = k + 1 \<and> next_id c = k + 2 \<and> sent c = sent0 @ [''noidle'']
          \<and> resp_id c = k + 1 \<and> unread c = drop (reply_length stream) stream
      | U_cmd \<Rightarrow>
          finished ip \<and> next_id c = k + 2 \<and> sent c = sent0 @ [''noidle'']
          \<and> resp_id c = k + 2 \<and> unread c = drop (reply_length stream) stream
      | U_start rid \<Rightarrow>
          finished ip \<and> rid = k + 2 \<and> sent c = sent0 @ [''noidle'', cmd]
          \<and> resp_id c = k + 2 \<and> unread c = drop (reply_length stream) stream
      | U_reading rid seen \<Rightarrow>
          finished ip \<and> sent c = sent0 @ [''noidle'', cmd]
          \<and> seen @ unread c = drop (reply_length stream) stream
      | U_failed e \<Rightarrow>
          (sent c = sent0 \<or> sent c = sent0 @ [''noidle''])
          \<and> (finished ip \<longrightarrow> unread c = drop (reply_length stream) stream)
      | U_out_of_sync \<Rightarrow> False)"

definition inv :: "go_uint \<Rightarrow> (string \<times> go_error option) list \<Rightarrow> string list \<Rightarrow> string \<Rightarrow> world \<Rightarrow> bool" where
  "inv k stream sent0 cmd w =
     (idle_view k stream (idler w) (wire w)
      \<and> cmd_view k stream sent0 cmd (idler w) (caller w) (wire w))"

text \<open>The caller's moves alone, and the outcome of \<open>Cmd\<close> they amount to.\<close>

fun run_cmd :: "nat \<Rightarrow> string \<Rightarrow> cmd_pc \<Rightarrow> conn \<Rightarrow> cmd_pc \<times> conn" where
  "run_cmd 0 cmd p c = (p, c)"
| "run_cmd (Suc n) cmd p c =
     (case cmd_step cmd p c of
        None \<Rightarrow> (p, c)
      | Some (p1, c1) \<Rightarrow> run_cmd n cmd p1 c1)"

fun as_outcome :: "cmd_pc \<times> conn \<Rightarrow> (go_uint \<times> go_error option, conn) outcome" where
  "as_outcome (U_start rid, c) = Returns (rid, None) c"
| "as_outcome (U_failed e, c) = Returns (0, Some e) c"
| "as_outcome (U_out_of_sync, c) = Panics (RuntimeError ''out of sync'') c"
| "as_outcome (p, c) = Blocks c"

text \<open>A schedule: for each move, whether the reader makes it.\<close>

fun play :: "bool list \<Rightarrow> go_uint \<Rightarrow> string \<Rightarrow> world \<Rightarrow> world option" where
  "play [] k cmd w = Some w"
| "play (idle_moves # sched) k cmd w =
     (if idle_moves then
        (case idle_step k (idler w) (wire w) of
           None \<Rightarrow> None
         | Some (p, c) \<Rightarrow> play sched k cmd (w\<lparr>wire := c, idler := p\<rparr>))
      else
        (case cmd_step cmd (caller w) (wire w) of
           None \<Rightarrow> None
         | Some (p, c) \<Rightarrow> play sched k cmd (w\<lparr>wire := c, caller := p\<rparr>)))"

text \<open>A connection on which a change of the player was reported before the status reply.\<close>

definition player_changed :: conn where
  "player_changed = sample_conn
     [(''changed: player'', None), (''OK'', None), (''state: play'', None), (''OK'', None)]"

text \<open>The reader's moves alone, and the outcome of \<open>fillInfoUntilOK\<close> they amount to.\<close>

fun run_reading :: "nat \<Rightarrow> go_uint \<Rightarrow> idle_pc \<Rightarrow> conn \<Rightarrow> idle_pc \<times> conn" where
  "run_reading 0 k p c = (p, c)"
| "run_reading (Suc n) k (I_reading info) c =
     (case idle_step k (I_reading info) c of
        None \<Rightarrow> (I_reading info, c)
      | Some (p1, c1) \<Rightarrow> run_reading n k p1 c1)"
| "run_reading (Suc n) k p c = (p, c)"

fun read_outcome :: "idle_pc \<times> conn \<Rightarrow> (go_error option \<times> Info, conn) outcome" where
  "read_outcome (I_ending err info, c) = Returns (err, info) c"
| "read_outcome (p, c) = Blocks c"

section \<open>Properties\<close>

subsection \<open>strings.Index\<close>

lemma index_from_range: "index_from i s sep = - 1 \<or> (int i \<le> index_from i s sep \<and> index_from i s sep + int (length sep) \<le> int (i + length s))"
proof (induction s arbitrary: i)
  case Nil then show ?case by simp
next
  case (Cons c cs)
  show ?case
  proof (cases "prefix sep (c # cs)")
    case True
    then have "length sep \<le> length (c # cs)" by (rule prefix_length_le)
    with True show ?thesis by simp
  next
    case False
    with Cons[of "Suc i"] show ?thesis by auto
  qed
qed

lemma index_from_none: "index_from i s sep = - 1 \<longleftrightarrow> (\<forall>j \<le> length s. \<not> prefix sep (drop j s))"
proof (induction s arbitrary: i)
  case Nil then show ?case by auto
next
  case (Cons c cs)
  show ?case
  proof (cases "prefix sep (c # cs)")
    case True
    then show ?thesis by (auto intro: exI[of _ 0])
  next
    case False
    have "(\<forall>j \<le> length (c # cs). \<not> prefix sep (drop j (c # cs))) \<longleftrightarrow> (\<forall>j \<le> length cs. \<not> prefix sep (drop j cs))"
    proof
      assume a: "\<forall>j \<le> length (c # cs). \<not> prefix sep (drop j (c # cs))"
      show "\<forall>j \<le> length cs. \<not> prefix sep (drop j cs)"
      proof (intro allI impI)
        fix j assume "j \<le> length cs"
        with a[rule_format, of "Suc j"] show "\<not> prefix sep (drop j cs)" by simp
      qed
    next
      assume a: "\<forall>j \<le> length cs. \<not> prefix sep (drop j cs)"
      show "\<forall>j \<le> length (c # cs). \<not> prefix sep (drop j (c # cs))"
      proof (intro allI impI)
        fix j assume j: "j \<le> length (c # cs)"
        show "\<not> prefix sep (drop j (c # cs))"
        proof (cases j)
          case 0 with False show ?thesis by simp
        next
          case (Suc k) with j a[rule_format, of k] show ?thesis by simp
        qed
      qed
    qed
    with False Cons[of "Suc i"] show ?thesis by simp
  qed
qed

lemma index_from_first: "(\<forall>j < length a. \<not> prefix sep (drop j (a @ sep @ b))) \<Longrightarrow> index_from i (a @ sep @ b) sep = int (i + length a)"
proof (induction a arbitrary: i)
  case Nil
  have "prefix sep (sep @ b)" by simp
  then show ?case by (cases "sep @ b") auto
next
  case (Cons c cs)
  from Cons.prems[rule_format, of 0] have n: "\<not> prefix sep (c # cs @ sep @ b)" by simp
  have "\<forall>j < length cs. \<not> prefix sep (drop j (cs @ sep @ b))"
  proof (intro allI impI)
    fix j assume "j < length cs"
    with Cons.prems[rule_format, of "Suc j"] show "\<not> prefix sep (drop j (cs @ sep @ b))" by simp
  qed
  from Cons.IH[OF this, of "Suc i"] n show ?case by simp
qed

lemma index_from_char_none: "index_from i t [x] = - 1 \<longleftrightarrow> x \<notin> set t"
  by (induction t arbitrary: i) auto

lemma index_char_none: "strings_Index t [x] = - 1 \<longleftrightarrow> x \<notin> set t"
  by (simp add: strings_Index_def index_from_char_none)


subsection \<open>Progress\<close>

lemma Progress_no_time: "info ''time'' = None \<Longrightarrow> Progress L info = Value (0, 0)"
  by (simp add: Progress_def)

lemma Progress_no_colon: "info ''time'' = Some t \<Longrightarrow> CHR '':'' \<notin> set t \<Longrightarrow> Progress L info = Panic (RuntimeError ''slice bounds out of range'')"
  using index_char_none[of t "CHR '':''"]
  by (simp add: Progress_def go_slice_def)

lemma index_colon_first: "CHR '':'' \<notin> set a \<Longrightarrow> strings_Index (a @ '':'' @ b) '':'' = int (length a)"
proof -
  assume a: "CHR '':'' \<notin> set a"
  have "\<forall>j < length a. \<not> prefix '':'' (drop j (a @ '':'' @ b))"
  proof (intro allI impI)
    fix j assume j: "j < length a"
    then have "drop j (a @ '':'' @ b) = a ! j # drop (Suc j) a @ '':'' @ b"
      by (simp add: Cons_nth_drop_Suc)
    moreover from j a have "a ! j \<noteq> CHR '':''" by (metis nth_mem)
    ultimately show "\<not> prefix '':'' (drop j (a @ '':'' @ b))" by simp
  qed
  from index_from_first[OF this, of 0] show ?thesis by (simp add: strings_Index_def)
qed

lemma index_colon_first': "CHR '':'' \<notin> set a \<Longrightarrow> strings_Index (a @ CHR '':'' # b) '':'' = int (length a)"
  using index_colon_first[of a b] by simp

lemma Progress_split: "info ''time'' = Some (a @ '':'' @ b) \<Longrightarrow> CHR '':'' \<notin> set a \<Longrightarrow>
   Progress L info = (if snd (ParseFloat L b) \<noteq> None then Value (0, 0)
                      else Value (to_int L (fst (ParseFloat L a)), to_int L (fst (ParseFloat L b))))"
proof -
  assume t: "info ''time'' = Some (a @ '':'' @ b)" and a: "CHR '':'' \<notin> set a"
  have n: "nat (int (length a) + 1) = Suc (length a)" by simp
  have s1: "go_slice (a @ '':'' @ b) 0 (int (length a)) = Value a"
    by (simp add: go_slice_def)
  have s2: "slice_from (a @ '':'' @ b) (int (length a) + 1) = Value b"
    by (simp add: go_slice_def slice_from_def n)
  show ?thesis
    using t s1 s2 index_colon_first[OF a, of b]
    by (simp add: Progress_def Let_def split: prod.splits)
qed

subsection \<open>The played-check\<close>

text \<open>
  Claim C2. The played-check returns true exactly when the previous status yields a total
  and an elapsed time that are both nonzero and whose difference, total minus elapsed in
  Go's \<open>int\<close>, is below the threshold of 10 seconds; whenever \<open>Progress\<close> yields a
  pair the check returns that condition. So elapsed 118 of 120 counts as played, elapsed
  60 of 120 does not, and a total of 0 never does.
\<close>

theorem considerSongPlayed_threshold:
  "(considerSongPlayed L info songPlayedThresholdSeconds = Value True \<longleftrightarrow>
      (\<exists>cur tot. Progress L info = Value (cur, tot) \<and> tot \<noteq> 0 \<and> cur \<noteq> 0 \<and> (tot - cur) <s 10))
   \<and> (\<forall>cur tot. Progress L info = Value (cur, tot) \<longrightarrow>
         considerSongPlayed L info songPlayedThresholdSeconds =
           Value (tot \<noteq> 0 \<and> cur \<noteq> 0 \<and> (tot - cur) <s 10))
   \<and> (Progress L info = Value (118, 120) \<longrightarrow>
         considerSongPlayed L info songPlayedThresholdSeconds = Value True)
   \<and> (Progress L info = Value (60, 120) \<longrightarrow>
         considerSongPlayed L info songPlayedThresholdSeconds = Value False)
   \<and> (\<forall>cur. Progress L info = Value (cur, 0) \<longrightarrow>
         considerSongPlayed L info songPlayedThresholdSeconds = Value False)"
  by (auto simp: considerSongPlayed_def songPlayedThresholdSeconds_def split: outcome.splits prod.splits)

lemma whole_seconds_samples:
  "ParseFloat whole_seconds ''118'' = (118, None)"
  "ParseFloat whole_seconds ''120'' = (120, None)"
  "ParseFloat whole_seconds ''60'' = (60, None)"
  "ParseFloat whole_seconds ''0'' = (0, None)"
  "ParseFloat whole_seconds ''35'' = (35, None)"
  "ParseFloat whole_seconds ''x'' = (0, Some (NumError ''ParseFloat'' ''x'' ErrSyntax))"
  "to_int whole_seconds = word_of_nat"
  by (simp_all add: whole_seconds_def digit_val_def maxUint64_def)

lemma Progress_samples:
  "Progress whole_seconds [''time'' \<mapsto> ''118:120''] = Value (118, 120)"
  "Progress whole_seconds [''time'' \<mapsto> ''60:120''] = Value (60, 120)"
  "Progress whole_seconds [''time'' \<mapsto> ''35:0''] = Value (35, 0)"
  using Progress_split[of "[''time'' \<mapsto> ''118:120'']" "''118''" "''120''" whole_seconds]
        Progress_split[of "[''time'' \<mapsto> ''60:120'']" "''60''" "''120''" whole_seconds]
        Progress_split[of "[''time'' \<mapsto> ''35:0'']" "''35''" "''0''" whole_seconds]
  by (simp_all add: whole_seconds_samples)

theorem considerSongPlayed_threshold_witness:
  "Progress whole_seconds [''time'' \<mapsto> ''118:120''] = Value (118, 120)
   \<and> considerSongPlayed whole_seconds [''time'' \<mapsto> ''118:120''] songPlayedThresholdSeconds = Value True
   \<and> Progress whole_seconds [''time'' \<mapsto> ''60:120''] = Value (60, 120)
   \<and> considerSongPlayed whole_seconds [''time'' \<mapsto> ''60:120''] songPlayedThresholdSeconds = Value False
   \<and> Progress whole_seconds [''time'' \<mapsto> ''35:0''] = Value (35, 0)
   \<and> considerSongPlayed whole_seconds [''time'' \<mapsto> ''35:0''] songPlayedThresholdSeconds = Value False"
  using considerSongPlayed_threshold[of whole_seconds "[''time'' \<mapsto> ''118:120'']"]
        considerSongPlayed_threshold[of whole_seconds "[''time'' \<mapsto> ''60:120'']"]
        considerSongPlayed_threshold[of whole_seconds "[''time'' \<mapsto> ''35:0'']"]
  by (simp add: Progress_samples)

text \<open>
  Claim C9. When the \<open>time\<close> value of a status has no colon, \<open>Progress\<close> slices
  with the index -1 and panics; when the \<open>time\<close> key is absent it returns (0, 0); and
  when the value splits at its first colon, only the error of parsing the total is
  looked at: the elapsed part contributes whatever ParseFloat returned for it, also
  when that call reported an error.
\<close>

theorem Progress_time_field:
  "(\<forall>t. info ''time'' = Some t \<and> CHR '':'' \<notin> set t \<longrightarrow>
       Progress L info = Panic (RuntimeError ''slice bounds out of range''))
   \<and> (info ''time'' = None \<longrightarrow> Progress L info = Value (0, 0))
   \<and> (\<forall>a b. info ''time'' = Some (a @ '':'' @ b) \<and> CHR '':'' \<notin> set a \<longrightarrow>
         Progress L info =
           (if snd (ParseFloat L b) \<noteq> None then Value (0, 0)
            else Value (to_int L (fst (ParseFloat L a)), to_int L (fst (ParseFloat L b)))))"
  using Progress_no_time[of info L] Progress_no_colon[of info _ L] Progress_split[of info _ _ L]
  by blast

theorem Progress_time_field_witness:
  "Progress whole_seconds [''time'' \<mapsto> ''118''] = Panic (RuntimeError ''slice bounds out of range'')
   \<and> Progress whole_seconds Map.empty = Value (0, 0)
   \<and> snd (ParseFloat whole_seconds ''x'') \<noteq> None
   \<and> Progress whole_seconds [''time'' \<mapsto> ''x:120''] = Value (0, 120)
   \<and> Progress whole_seconds [''time'' \<mapsto> ''118:x''] = Value (0, 0)"
  using Progress_time_field[of "[''time'' \<mapsto> ''118'']" whole_seconds]
        Progress_time_field[of Map.empty whole_seconds]
        Progress_time_field[of "[''time'' \<mapsto> ''x:120'']" whole_seconds, THEN conjunct2, THEN conjunct2, rule_format, of "''x''" "''120''"]
        Progress_time_field[of "[''time'' \<mapsto> ''118:x'']" whole_seconds, THEN conjunct2, THEN conjunct2, rule_format, of "''118''" "''x''"]
  by (simp add: whole_seconds_samples)

subsection \<open>Connect\<close>

lemma Connect_returns_client:
  "Connect host port dialed = Value (Inr cl) \<Longrightarrow>
     \<exists>c line rest. dialed = Inr c \<and> unread c = (line, None) # rest \<and> take 6 line = ''OK MPD''
        \<and> cl = \<lparr>Host = host, Port = port, conn = c\<lparr>unread := rest\<rparr>, subscriptions = []\<rparr>"
  by (auto simp: Connect_def ReadLine_def go_slice_def split: sum.splits list.splits option.splits if_splits outcome.splits)

lemma Connect_long_greeting:
  "unread c = (line, None) # rest \<Longrightarrow> 6 \<le> length line \<Longrightarrow>
     Connect host port (Inr c) =
       (if take 6 line = ''OK MPD''
        then Value (Inr \<lparr>Host = host, Port = port, conn = c\<lparr>unread := rest\<rparr>, subscriptions = []\<rparr>)
        else Value (Inl (ErrorString ''MPD: not OK'')))"
  by (auto simp: Connect_def ReadLine_def go_slice_def)

lemma Connect_short_greeting:
  "unread c = (line, None) # rest \<Longrightarrow> length line < 6 \<Longrightarrow>
     Connect host port (Inr c) = Panic (RuntimeError ''slice bounds out of range'')"
  by (auto simp: Connect_def ReadLine_def go_slice_def)

text \<open>
  Claim C8. \<open>Connect\<close> returns a client only for a greeting that starts with
  \<open>OK MPD\<close>, and a greeting of six or more bytes that does not start so gives the
  error \<open>MPD: not OK\<close> (\<open>Connect_returns_client\<close>, \<open>Connect_long_greeting\<close>). A greeting shorter than six bytes is
  sliced out of range: for the greeting \<open>OK\<close> the call panics instead of returning an
  error.
\<close>

theorem Connect_greeting_OK_panics:
  "Connect ''localhost'' 6600
     (Inr \<lparr>sent = [], unread = [(''OK'', None)], wfail = [], next_id = 0, resp_id = 0\<rparr>)
   = Panic (RuntimeError ''slice bounds out of range'')"
  by (simp add: Connect_def ReadLine_def go_slice_def)


subsection \<open>Parsing a reply into an Info\<close>

lemma fill_blocks: "unread c = [] \<Longrightarrow> fillInfoUntilOK info c = Blocks c"
  by (subst fillInfoUntilOK.simps) (simp add: ReadLine_def)

lemma fill_read_error:
  "unread c = (l, Some e) # rest \<Longrightarrow> fillInfoUntilOK info c = Returns (Some e, info) (c\<lparr>unread := rest\<rparr>)"
  by (subst fillInfoUntilOK.simps) (simp add: ReadLine_def)

lemma fill_OK:
  "unread c = (''OK'', None) # rest \<Longrightarrow> fillInfoUntilOK info c = Returns (None, info) (c\<lparr>unread := rest\<rparr>)"
  by (subst fillInfoUntilOK.simps) (simp add: ReadLine_def)

lemma fill_line:
  "unread c = (l, None) # rest \<Longrightarrow> l \<noteq> ''OK'' \<Longrightarrow>
     fillInfoUntilOK info c =
       (case AddInfo info l of
          (Some e, info1) \<Rightarrow> Returns (Some e, info1) (c\<lparr>unread := rest\<rparr>)
        | (None, info1) \<Rightarrow> fillInfoUntilOK info1 (c\<lparr>unread := rest\<rparr>))"
  by (subst fillInfoUntilOK.simps) (simp add: ReadLine_def)

lemma sep_not_in_key:
  assumes "strings_Index k '': '' = - 1" and j: "j < length k"
  shows "\<not> prefix '': '' (drop j (k @ '': '' @ v))"
proof -
  from assms(1) have n: "\<not> prefix '': '' (drop j k)"
    using j by (simp add: strings_Index_def index_from_none)
  from j obtain x xs where d: "drop j k = x # xs" by (cases "drop j k") auto
  show ?thesis
  proof (cases xs)
    case Nil
    with d j show ?thesis by simp
  next
    case (Cons y ys)
    with d n j show ?thesis by simp
  qed
qed

lemma index_sep_key:
  "strings_Index k '': '' = - 1 \<Longrightarrow> strings_Index (k @ '': '' @ v) '': '' = int (length k)"
  using index_from_first[of k "'': ''" v 0] sep_not_in_key[of k _ v]
  by (simp add: strings_Index_def)

lemma AddInfo_pair:
  "strings_Index k '': '' = - 1 \<Longrightarrow> AddInfo info (k @ '': '' @ v) = (None, info(k \<mapsto> v))"
  using index_sep_key[of k v] by (simp add: AddInfo_def infoFieldSep_def)

lemma AddInfo_no_sep:
  "strings_Index l '': '' = - 1 \<Longrightarrow> AddInfo info l = (Some (ErrorString (''Invalid input: '' @ l)), info)"
  by (simp add: AddInfo_def infoFieldSep_def)

lemma AddInfo_sep:
  "strings_Index l '': '' \<noteq> - 1 \<Longrightarrow> \<exists>info1. AddInfo info l = (None, info1)"
  by (simp add: AddInfo_def infoFieldSep_def Let_def)

lemma AddInfo_slices:
  assumes "strings_Index data infoFieldSep \<noteq> - 1"
  shows "go_slice data 0 (strings_Index data infoFieldSep) = Value (take (nat (strings_Index data infoFieldSep)) data)"
    and "slice_from data (strings_Index data infoFieldSep + int (length infoFieldSep))
           = Value (drop (nat (strings_Index data infoFieldSep) + length infoFieldSep) data)"
  using assms index_from_range[of 0 data infoFieldSep]
  by (auto simp: strings_Index_def go_slice_def slice_from_def nat_add_distrib)

lemma fill_pairs:
  "unread c = map (\<lambda>(k, v). (k @ '': '' @ v, None)) kvs @ (''OK'', None) # rest \<Longrightarrow>
   (\<forall>(k, v) \<in> set kvs. strings_Index k '': '' = - 1) \<Longrightarrow>
   fillInfoUntilOK info c = Returns (None, info ++ map_of (rev kvs)) (c\<lparr>unread := rest\<rparr>)"
proof (induction kvs arbitrary: info c)
  case Nil
  then show ?case by (simp add: fill_OK)
next
  case (Cons kv kvs)
  obtain k v where kv: "kv = (k, v)" by (cases kv)
  from Cons.prems kv have k: "strings_Index k '': '' = - 1" by simp
  let ?c1 = "c\<lparr>unread := map (\<lambda>(k, v). (k @ '': '' @ v, None)) kvs @ (''OK'', None) # rest\<rparr>"
  have u: "unread c = (k @ '': '' @ v, None) # map (\<lambda>(k, v). (k @ '': '' @ v, None)) kvs @ (''OK'', None) # rest"
    using Cons.prems(1) kv by simp
  have ne: "k @ '': '' @ v \<noteq> ''OK''"
  proof
    assume "k @ '': '' @ v = ''OK''"
    then have "CHR '':'' \<in> set ''OK''" by (metis in_set_conv_decomp append_Cons)
    then show False by simp
  qed
  have "fillInfoUntilOK info c = fillInfoUntilOK (info(k \<mapsto> v)) ?c1"
    using fill_line[OF u ne, of info] AddInfo_pair[OF k, of info v] by simp
  also have "\<dots> = Returns (None, info(k \<mapsto> v) ++ map_of (rev kvs)) (?c1\<lparr>unread := rest\<rparr>)"
    using Cons.prems(2) by (intro Cons.IH) auto
  finally show ?case using kv by (simp add: map_add_def fun_eq_iff split: option.splits)
qed

lemma fill_bad_line:
  "unread c = map (\<lambda>l. (l, None)) good @ (bad, None) # rest \<Longrightarrow>
   (\<forall>l \<in> set good. strings_Index l '': '' \<noteq> - 1) \<Longrightarrow>
   bad \<noteq> ''OK'' \<Longrightarrow> strings_Index bad '': '' = - 1 \<Longrightarrow>
   \<exists>info1. fillInfoUntilOK info c =
      Returns (Some (ErrorString (''Invalid input: '' @ bad)), info1) (c\<lparr>unread := rest\<rparr>)"
proof (induction good arbitrary: info c)
  case Nil
  then show ?case using fill_line[of c bad rest info] by (simp add: AddInfo_no_sep)
next
  case (Cons l good)
  have ok: "strings_Index ''OK'' '': '' = - 1" by (simp add: strings_Index_def)
  from Cons.prems(2) ok have ne: "l \<noteq> ''OK''" by auto
  from Cons.prems(2) obtain info1 where a: "AddInfo info l = (None, info1)"
    using AddInfo_sep[of l info] by auto
  let ?c1 = "c\<lparr>unread := map (\<lambda>l. (l, None)) good @ (bad, None) # rest\<rparr>"
  have u: "unread c = (l, None) # map (\<lambda>l. (l, None)) good @ (bad, None) # rest"
    using Cons.prems(1) by simp
  have "fillInfoUntilOK info c = fillInfoUntilOK info1 ?c1"
    using fill_line[OF u ne, of info] a by simp
  moreover have "\<exists>info2. fillInfoUntilOK info1 ?c1 =
      Returns (Some (ErrorString (''Invalid input: '' @ bad)), info2) (?c1\<lparr>unread := rest\<rparr>)"
    using Cons.prems by (intro Cons.IH) auto
  ultimately show ?case by simp
qed

text \<open>
  Claim C7. A reply whose lines are \<open>key: value\<close> pairs with distinct keys (a key holds
  no separator), ended by an \<open>OK\<close> line, is parsed into the mapping that holds exactly
  those pairs; the value is everything after the first separator, colons included (when
  a key is repeated, its last line wins: \<open>fill_pairs\<close>). A line without the
  separator, met before any \<open>OK\<close> line, ends the parse with the error
  \<open>Invalid input\<close> for that line.
\<close>

theorem fillInfoUntilOK_reply:
  "(unread c = map (\<lambda>(k, v). (k @ '': '' @ v, None)) kvs @ (''OK'', None) # rest
      \<and> (\<forall>(k, v) \<in> set kvs. strings_Index k '': '' = - 1) \<and> distinct (map fst kvs)
    \<longrightarrow> (\<exists>info. fillInfoUntilOK Map.empty c = Returns (None, info) (c\<lparr>unread := rest\<rparr>)
            \<and> (\<forall>k v. info k = Some v \<longleftrightarrow> (k, v) \<in> set kvs)))
   \<and> (unread c = map (\<lambda>l. (l, None)) good @ (bad, None) # rest
      \<and> (\<forall>l \<in> set good. strings_Index l '': '' \<noteq> - 1)
      \<and> bad \<noteq> ''OK'' \<and> strings_Index bad '': '' = - 1
    \<longrightarrow> (\<exists>info1. fillInfoUntilOK info0 c =
            Returns (Some (ErrorString (''Invalid input: '' @ bad)), info1) (c\<lparr>unread := rest\<rparr>)))"
proof (intro conjI impI)
  assume a: "unread c = map (\<lambda>(k, v). (k @ '': '' @ v, None)) kvs @ (''OK'', None) # rest
      \<and> (\<forall>(k, v) \<in> set kvs. strings_Index k '': '' = - 1) \<and> distinct (map fst kvs)"
  then have "fillInfoUntilOK Map.empty c = Returns (None, Map.empty ++ map_of (rev kvs)) (c\<lparr>unread := rest\<rparr>)"
    by (intro fill_pairs) auto
  moreover from a have "distinct (map fst (rev kvs))" by (simp add: rev_map[symmetric])
  then have "\<forall>k v. (Map.empty ++ map_of (rev kvs)) k = Some v \<longleftrightarrow> (k, v) \<in> set kvs"
    by (auto simp: map_of_eq_Some_iff)
  ultimately show "\<exists>info. fillInfoUntilOK Map.empty c = Returns (None, info) (c\<lparr>unread := rest\<rparr>)
            \<and> (\<forall>k v. info k = Some v \<longleftrightarrow> (k, v) \<in> set kvs)" by blast
next
  assume "unread c = map (\<lambda>l. (l, None)) good @ (bad, None) # rest
      \<and> (\<forall>l \<in> set good. strings_Index l '': '' \<noteq> - 1)
      \<and> bad \<noteq> ''OK'' \<and> strings_Index bad '': '' = - 1"
  then show "\<exists>info1. fillInfoUntilOK info0 c =
            Returns (Some (ErrorString (''Invalid input: '' @ bad)), info1) (c\<lparr>unread := rest\<rparr>)"
    using fill_bad_line[of c good bad rest info0] by blast
qed

theorem fillInfoUntilOK_reply_witness:
  "(\<exists>info. fillInfoUntilOK Map.empty
       (sample_conn [(''file: a.mp3'', None), (''Title: Part 1: Intro'', None), (''OK'', None)])
      = Returns (None, info) (sample_conn [])
     \<and> info ''file'' = Some ''a.mp3'' \<and> info ''Title'' = Some ''Part 1: Intro''
     \<and> info ''Artist'' = None)
   \<and> (\<exists>info1. fillInfoUntilOK Map.empty
       (sample_conn [(''state: play'', None), (''volume'', None), (''OK'', None)])
      = Returns (Some (ErrorString ''Invalid input: volume''), info1) (sample_conn [(''OK'', None)]))"
proof -
  let ?c = "sample_conn [(''file: a.mp3'', None), (''Title: Part 1: Intro'', None), (''OK'', None)]"
  let ?kvs = "[(''file'', ''a.mp3''), (''Title'', ''Part 1: Intro'')]"
  have h1: "unread ?c = map (\<lambda>(k, v). (k @ '': '' @ v, None)) ?kvs @ (''OK'', None) # []
      \<and> (\<forall>(k, v) \<in> set ?kvs. strings_Index k '': '' = - 1) \<and> distinct (map fst ?kvs)"
    by (simp add: sample_conn_def strings_Index_def)
  from fillInfoUntilOK_reply[where c = ?c and kvs = ?kvs and rest = "[]", THEN conjunct1, rule_format, OF h1]
  obtain info where i: "fillInfoUntilOK Map.empty ?c = Returns (None, info) (?c\<lparr>unread := []\<rparr>)"
    and g: "\<forall>k v. info k = Some v \<longleftrightarrow> (k, v) \<in> set ?kvs" by blast
  from g have "info ''file'' = Some ''a.mp3''" "info ''Title'' = Some ''Part 1: Intro''" by simp_all
  moreover from g have "info ''Artist'' = None" by (cases "info ''Artist''") auto
  moreover have "?c\<lparr>unread := []\<rparr> = sample_conn []" by (simp add: sample_conn_def)
  ultimately have p1: "\<exists>info. fillInfoUntilOK Map.empty ?c = Returns (None, info) (sample_conn [])
     \<and> info ''file'' = Some ''a.mp3'' \<and> info ''Title'' = Some ''Part 1: Intro''
     \<and> info ''Artist'' = None" using i by auto
  let ?d = "sample_conn [(''state: play'', None), (''volume'', None), (''OK'', None)]"
  have h2: "unread ?d = map (\<lambda>l. (l, None)) [''state: play''] @ (''volume'', None) # [(''OK'', None)]
      \<and> (\<forall>l \<in> set [''state: play'']. strings_Index l '': '' \<noteq> - 1)
      \<and> ''volume'' \<noteq> ''OK'' \<and> strings_Index ''volume'' '': '' = - 1"
    by (simp add: sample_conn_def strings_Index_def)
  from fillInfoUntilOK_reply[where c = ?d and good = "[''state: play'']" and bad = "''volume''" and rest = "[(''OK'', None)]" and ?info0.0 = Map.empty, THEN conjunct2, rule_format, OF h2]
  have p2: "\<exists>info1. fillInfoUntilOK Map.empty ?d
      = Returns (Some (ErrorString ''Invalid input: volume''), info1) (sample_conn [(''OK'', None)])"
    by (simp add: sample_conn_def)
  from p1 p2 show ?thesis by blast
qed


subsection \<open>Commands and their responses\<close>

lemma writes_ok_tl: "writes_ok c \<Longrightarrow> writes_ok (c\<lparr>wfail := tl (wfail c)\<rparr>)"
  by (cases "wfail c") (auto simp: writes_ok_def)

lemma conn_Cmd_ok:
  "writes_ok c \<Longrightarrow>
     conn_Cmd text c =
       Returns (next_id c, None)
         (c\<lparr>next_id := next_id c + 1, sent := sent c @ [text], wfail := tl (wfail c)\<rparr>)"
  by (cases "wfail c") (auto simp: conn_Cmd_def writes_ok_def Let_def split: option.splits)

lemma noIdle_ok:
  "writes_ok c \<Longrightarrow> in_sync c \<Longrightarrow>
     noIdle c =
       Returns None
         (c\<lparr>next_id := next_id c + 1, sent := sent c @ [''noidle''], wfail := tl (wfail c),
            resp_id := next_id c + 1\<rparr>)"
  by (simp add: noIdle_def bind_def conn_Cmd_ok StartResponse_def EndResponse_def deferring_def
        ret_def in_sync_def)

lemma Cmd_ok:
  "writes_ok c \<Longrightarrow> in_sync c \<Longrightarrow> Cmd cmd c = Returns (next_id c + 1, None) (issued cmd c)"
proof -
  assume w: "writes_ok c" and s: "in_sync c"
  let ?c1 = "c\<lparr>next_id := next_id c + 1, sent := sent c @ [''noidle''], wfail := tl (wfail c),
            resp_id := next_id c + 1\<rparr>"
  have w1: "writes_ok ?c1" using writes_ok_tl[OF w] by (simp add: writes_ok_def)
  show ?thesis
    using noIdle_ok[OF w s] conn_Cmd_ok[OF w1, of cmd]
    by (simp add: Cmd_def bind_def ret_def issued_def)
qed

lemma answered_ready:
  "writes_ok c \<Longrightarrow> writes_ok (answered cmd rest c) \<and> in_sync (answered cmd rest c)"
  using writes_ok_tl[of c] writes_ok_tl[of "c\<lparr>wfail := tl (wfail c)\<rparr>"]
  by (simp add: answered_def in_sync_def writes_ok_def)

lemma answered_fields:
  "sent (answered cmd rest c) = sent c @ [''noidle'', cmd]"
  "unread (answered cmd rest c) = rest"
  by (simp_all add: answered_def)

lemma bracket_returns:
  "body (issued cmd c) = Returns a ((issued cmd c)\<lparr>unread := rest\<rparr>) \<Longrightarrow>
   bind (startResponse (next_id c + 1)) (\<lambda>_. deferring (endResponse (next_id c + 1)) body) (issued cmd c)
     = Returns a (answered cmd rest c)"
  by (simp add: bind_def deferring_def startResponse_def endResponse_def StartResponse_def
        EndResponse_def issued_def answered_def)

lemma bracket_blocks:
  "body (issued cmd c) = Blocks s \<Longrightarrow>
   bind (startResponse (next_id c + 1)) (\<lambda>_. deferring (endResponse (next_id c + 1)) body) (issued cmd c)
     = Blocks s"
  by (simp add: bind_def deferring_def startResponse_def endResponse_def StartResponse_def
        EndResponse_def issued_def)

lemma unread_issued: "unread (issued cmd c) = unread c"
  by (simp add: issued_def)

lemma StickerGet_no_match:
  assumes "writes_ok c" "in_sync c" "unread c = (line, e) # rest" "FindStringSubmatch line = None"
  shows "StickerGet stype uri name c =
     Returns (if \<not> isMPDError line then ([], None)
              else if strings_Index line ''no such sticker'' \<noteq> - 1 then ([], None)
              else ([], Some (ErrorString (''StickerGet: '' @ line))))
       (answered (sticker_get_cmd stype uri name) rest c)"
  unfolding StickerGet_def
  apply (subst bind_def)
  apply (simp add: Cmd_ok[OF assms(1,2)] split del: if_split)
  apply (rule bracket_returns)
  apply (simp add: bind_def unread_issued assms(3) assms(4) ret_def ReadLine_def)
  done

lemma StickerGet_match:
  assumes "writes_ok c" "in_sync c" "unread c = (line, e) # (l2, e2) # rest"
    "FindStringSubmatch line = Some m"
  shows "StickerGet stype uri name c =
     Returns (case e2 of Some err \<Rightarrow> ([], Some err)
              | None \<Rightarrow> if l2 \<noteq> ''OK''
                  then ([], Some (ErrorString (''StickerGet didn't receive OK line: '' @ l2)))
                  else (m ! 2, None))
       (answered (sticker_get_cmd stype uri name) rest c)"
  unfolding StickerGet_def
  apply (subst bind_def)
  apply (simp add: Cmd_ok[OF assms(1,2)] split del: if_split)
  apply (rule bracket_returns)
  apply (simp add: bind_def unread_issued assms(3) assms(4) ret_def ReadLine_def split: option.splits)
  done

lemma StickerGet_match_waits:
  assumes "writes_ok c" "in_sync c" "unread c = [(line, e)]"
    "FindStringSubmatch line = Some m"
  shows "StickerGet stype uri name c = Blocks ((issued (sticker_get_cmd stype uri name) c)\<lparr>unread := []\<rparr>)"
  unfolding StickerGet_def
  apply (subst bind_def)
  apply (simp add: Cmd_ok[OF assms(1,2)] split del: if_split)
  apply (rule bracket_blocks)
  apply (simp add: bind_def unread_issued assms(3) assms(4) ret_def ReadLine_def split: option.splits)
  done

lemma StickerSet_reply:
  assumes "writes_ok c" "in_sync c" "unread c = (line, e) # rest"
  shows "StickerSet stype uri name v c =
     Returns (if line \<noteq> ''OK'' then Some (ErrorString (''StickerSet: '' @ line)) else None)
       (answered (sticker_set_cmd stype uri name v) rest c)"
  unfolding StickerSet_def
  apply (subst bind_def)
  apply (simp add: Cmd_ok[OF assms(1,2)] split del: if_split)
  apply (rule bracket_returns)
  apply (simp add: bind_def unread_issued assms(3) ret_def ReadLine_def)
  done

lemma match_shape:
  assumes "k \<noteq> []" "CHR ''='' \<notin> set v" "newline \<notin> set k" "newline \<notin> set v"
  shows "match_here (''sticker: '' @ k @ ''='' @ v) = Some [''sticker: '' @ k @ ''='' @ v, k, v]"
proof -
  have le: "\<And>xs. CHR ''='' \<notin> set xs \<Longrightarrow> last_eq xs = None"
  proof -
    fix xs :: string show "CHR ''='' \<notin> set xs \<Longrightarrow> last_eq xs = None" by (induction xs) auto
  qed
  have l2: "\<And>xs. last_eq (xs @ ''='' @ v) = Some (length xs)"
  proof -
    fix xs :: string show "last_eq (xs @ ''='' @ v) = Some (length xs)"
      using le[OF assms(2)] by (induction xs) auto
  qed
  have tw: "takeWhile (\<lambda>c. c \<noteq> newline) v = v"
    using assms(4) by (auto simp: takeWhile_eq_all_conv)
  have nk: "\<forall>x \<in> set k. x \<noteq> newline" using assms(3) by auto
  have ne: "CHR ''='' \<noteq> newline" by (simp add: newline_def)
  show ?thesis using assms(1) l2[of k] nk ne by (simp add: match_here_def Let_def tw del: takeWhile_eq_all_conv)
qed

subsection \<open>StickerGet\<close>

lemma FindStringSubmatch_shape:
  assumes "k \<noteq> []" "CHR ''='' \<notin> set v" "newline \<notin> set k" "newline \<notin> set v"
  shows "FindStringSubmatch (''sticker: '' @ k @ ''='' @ v) = Some [''sticker: '' @ k @ ''='' @ v, k, v]"
  using match_shape[OF assms] by simp

text \<open>
  Claim C10. When the first reply line neither matches the sticker pattern nor contains
  \<open>ACK\<close>, \<open>StickerGet\<close> returns the empty string and no error after reading that
  one line: what the peer sent after it, the closing \<open>OK\<close> line included, is still
  unread on the connection.
\<close>

theorem StickerGet_unexpected_line:
  "writes_ok c \<and> in_sync c \<and> unread c = (line, e) # rest
     \<and> FindStringSubmatch line = None \<and> \<not> isMPDError line
   \<longrightarrow> (\<exists>c1. StickerGet stype uri name c = Returns ([], None) c1
         \<and> unread c1 = rest
         \<and> sent c1 = sent c @ [''noidle'', sticker_get_cmd stype uri name])"
proof
  assume a: "writes_ok c \<and> in_sync c \<and> unread c = (line, e) # rest
     \<and> FindStringSubmatch line = None \<and> \<not> isMPDError line"
  then have "StickerGet stype uri name c =
      Returns ([], None) (answered (sticker_get_cmd stype uri name) rest c)"
    using StickerGet_no_match[of c line e rest stype uri name] by simp
  then show "\<exists>c1. StickerGet stype uri name c = Returns ([], None) c1
         \<and> unread c1 = rest
         \<and> sent c1 = sent c @ [''noidle'', sticker_get_cmd stype uri name]"
    by (simp add: answered_fields)
qed

lemma sample_ready: "writes_ok (sample_conn ls)" "in_sync (sample_conn ls)"
  by (simp_all add: sample_conn_def writes_ok_def in_sync_def)

theorem StickerGet_unexpected_line_witness:
  "\<exists>c1. StickerGet ''song'' ''a.mp3'' ''playcount''
          (sample_conn [(''playcount 3'', None), (''OK'', None)]) = Returns ([], None) c1
        \<and> unread c1 = [(''OK'', None)]
        \<and> sent c1 = [''noidle'', sticker_get_cmd ''song'' ''a.mp3'' ''playcount'']"
proof -
  have "writes_ok (sample_conn [(''playcount 3'', None), (''OK'', None)])
      \<and> in_sync (sample_conn [(''playcount 3'', None), (''OK'', None)])
      \<and> unread (sample_conn [(''playcount 3'', None), (''OK'', None)])
          = (''playcount 3'', None) # [(''OK'', None)]
      \<and> FindStringSubmatch ''playcount 3'' = None \<and> \<not> isMPDError ''playcount 3''"
    by (simp add: sample_ready) (simp add: sample_conn_def match_here_def isMPDError_def strings_Index_def)
  from StickerGet_unexpected_line[rule_format, OF this, of "''song''" "''a.mp3''" "''playcount''"]
  show ?thesis by (simp add: sample_conn_def)
qed

text \<open>
  Claim C4, as stated, fails: the pattern is tried first, so a reply line that contains
  \<open>ACK\<close> and matches the pattern is a sticker value, not an error.
\<close>

theorem StickerGet_match_before_ACK:
  "isMPDError ''sticker: rating=BLACK''
   \<and> strings_Index ''sticker: rating=BLACK'' ''no such sticker'' = - 1
   \<and> StickerGet ''song'' ''a.mp3'' ''rating''
        (sample_conn [(''sticker: rating=BLACK'', None), (''OK'', None)])
      = Returns (''BLACK'', None)
          \<lparr>sent = [''noidle'', sticker_get_cmd ''song'' ''a.mp3'' ''rating''], unread = [],
           wfail = [], next_id = 2, resp_id = 2\<rparr>"
proof -
  have m: "FindStringSubmatch ''sticker: rating=BLACK'' = Some [''sticker: rating=BLACK'', ''rating'', ''BLACK'']"
    using FindStringSubmatch_shape[of "''rating''" "''BLACK''"] by (simp add: newline_def)
  have u: "unread (sample_conn [(''sticker: rating=BLACK'', None), (''OK'', None)])
      = (''sticker: rating=BLACK'', None) # (''OK'', None) # []"
    by (simp add: sample_conn_def)
  have "StickerGet ''song'' ''a.mp3'' ''rating''
        (sample_conn [(''sticker: rating=BLACK'', None), (''OK'', None)])
      = Returns (''BLACK'', None)
          \<lparr>sent = [''noidle'', sticker_get_cmd ''song'' ''a.mp3'' ''rating''], unread = [],
           wfail = [], next_id = 2, resp_id = 2\<rparr>"
    using StickerGet_match[OF sample_ready u m, of "''song''" "''a.mp3''" "''rating''"]
    by (simp add: answered_def sample_conn_def)
  moreover have "isMPDError ''sticker: rating=BLACK''"
    by (simp add: isMPDError_def strings_Index_def)
  moreover have "strings_Index ''sticker: rating=BLACK'' ''no such sticker'' = - 1"
    by (simp add: strings_Index_def)
  ultimately show ?thesis by blast
qed

text \<open>
  Claim C4, amended. On a connection that is in step and whose writes succeed: a first
  reply line that does not match the sticker pattern and reports \<open>no such sticker\<close>
  gives the empty string and no error; every other first line that does not match the
  pattern and contains \<open>ACK\<close> gives the error \<open>StickerGet: \<close> followed by the line; a
  first line that matches the pattern makes the call read one more line, and it returns
  the value only when that line is \<open>OK\<close>: another line or a read error gives an error,
  and without a further line the call does not return.
\<close>

theorem StickerGet_reply:
  "writes_ok c \<and> in_sync c \<longrightarrow>
     (\<forall>line e rest. unread c = (line, e) # rest \<and> FindStringSubmatch line = None
          \<and> strings_Index line ''no such sticker'' \<noteq> - 1
        \<longrightarrow> (\<exists>c1. StickerGet stype uri name c = Returns ([], None) c1 \<and> unread c1 = rest))
   \<and> (\<forall>line e rest. unread c = (line, e) # rest \<and> FindStringSubmatch line = None
          \<and> isMPDError line \<and> strings_Index line ''no such sticker'' = - 1
        \<longrightarrow> (\<exists>c1. StickerGet stype uri name c
                   = Returns ([], Some (ErrorString (''StickerGet: '' @ line))) c1
                 \<and> unread c1 = rest))
   \<and> (\<forall>line e l2 e2 rest m. unread c = (line, e) # (l2, e2) # rest
          \<and> FindStringSubmatch line = Some m
        \<longrightarrow> (\<exists>c1. StickerGet stype uri name c
                   = Returns (case e2 of
                                Some err \<Rightarrow> ([], Some err)
                              | None \<Rightarrow>
                                  if l2 \<noteq> ''OK''
                                  then ([], Some (ErrorString
                                         (''StickerGet didn't receive OK line: '' @ l2)))
                                  else (m ! 2, None)) c1
                 \<and> unread c1 = rest))
   \<and> (\<forall>line e m. unread c = [(line, e)] \<and> FindStringSubmatch line = Some m
        \<longrightarrow> (\<exists>c1. StickerGet stype uri name c = Blocks c1))"
proof (intro impI conjI allI)
  fix line e rest
  assume r: "writes_ok c \<and> in_sync c"
    and a: "unread c = (line, e) # rest \<and> FindStringSubmatch line = None
          \<and> strings_Index line ''no such sticker'' \<noteq> - 1"
  then show "\<exists>c1. StickerGet stype uri name c = Returns ([], None) c1 \<and> unread c1 = rest"
    using StickerGet_no_match[of c line e rest stype uri name] by (simp add: answered_fields)
next
  fix line e rest
  assume r: "writes_ok c \<and> in_sync c"
    and a: "unread c = (line, e) # rest \<and> FindStringSubmatch line = None
          \<and> isMPDError line \<and> strings_Index line ''no such sticker'' = - 1"
  then show "\<exists>c1. StickerGet stype uri name c
                   = Returns ([], Some (ErrorString (''StickerGet: '' @ line))) c1
                 \<and> unread c1 = rest"
    using StickerGet_no_match[of c line e rest stype uri name] by (simp add: answered_fields)
next
  fix line e l2 e2 rest m
  assume r: "writes_ok c \<and> in_sync c"
    and a: "unread c = (line, e) # (l2, e2) # rest \<and> FindStringSubmatch line = Some m"
  then show "\<exists>c1. StickerGet stype uri name c
                   = Returns (case e2 of
                                Some err \<Rightarrow> ([], Some err)
                              | None \<Rightarrow>
                                  if l2 \<noteq> ''OK''
                                  then ([], Some (ErrorString
                                         (''StickerGet didn't receive OK line: '' @ l2)))
                                  else (m ! 2, None)) c1
                 \<and> unread c1 = rest"
    using StickerGet_match[of c line e l2 e2 rest m stype uri name] by (simp add: answered_fields)
next
  fix line e m
  assume r: "writes_ok c \<and> in_sync c"
    and a: "unread c = [(line, e)] \<and> FindStringSubmatch line = Some m"
  then show "\<exists>c1. StickerGet stype uri name c = Blocks c1"
    using StickerGet_match_waits[of c line e m stype uri name] by simp
qed

theorem StickerGet_reply_witness:
  "(\<exists>c1. StickerGet ''song'' ''a.mp3'' ''playcount''
       (sample_conn [(''ACK [50@0] {sticker} no such sticker'', None)]) = Returns ([], None) c1
       \<and> unread c1 = [])
   \<and> (\<exists>c1. StickerGet ''song'' ''a.mp3'' ''playcount''
       (sample_conn [(''ACK [50@0] {sticker} No such song'', None)])
        = Returns ([], Some (ErrorString ''StickerGet: ACK [50@0] {sticker} No such song'')) c1
       \<and> unread c1 = [])
   \<and> (\<exists>c1. StickerGet ''song'' ''a.mp3'' ''playcount''
       (sample_conn [(''sticker: playcount=7'', None), (''OK'', None)]) = Returns (''7'', None) c1
       \<and> unread c1 = [])
   \<and> (\<exists>c1. StickerGet ''song'' ''a.mp3'' ''playcount''
       (sample_conn [(''sticker: playcount=7'', None), (''volume: 3'', None)])
        = Returns ([], Some (ErrorString ''StickerGet didn't receive OK line: volume: 3'')) c1
       \<and> unread c1 = [])
   \<and> (\<exists>c1. StickerGet ''song'' ''a.mp3'' ''playcount''
       (sample_conn [(''sticker: playcount=7'', None)]) = Blocks c1)"
proof -
  have m: "FindStringSubmatch ''sticker: playcount=7'' = Some [''sticker: playcount=7'', ''playcount'', ''7'']"
    using FindStringSubmatch_shape[of "''playcount''" "''7''"] by (simp add: newline_def)
  have n1: "FindStringSubmatch ''ACK [50@0] {sticker} no such sticker'' = None"
    by (simp add: match_here_def)
  have n2: "FindStringSubmatch ''ACK [50@0] {sticker} No such song'' = None"
    by (simp add: match_here_def)
  have i1: "strings_Index ''ACK [50@0] {sticker} no such sticker'' ''no such sticker'' \<noteq> - 1"
    by (simp add: strings_Index_def)
  have i2: "strings_Index ''ACK [50@0] {sticker} No such song'' ''no such sticker'' = - 1"
    "isMPDError ''ACK [50@0] {sticker} No such song''"
    by (simp_all add: strings_Index_def isMPDError_def)
  note T = StickerGet_reply[rule_format, OF conjI[OF sample_ready], of _ "''song''" "''a.mp3''" "''playcount''"]
  have "\<exists>c1. StickerGet ''song'' ''a.mp3'' ''playcount''
       (sample_conn [(''ACK [50@0] {sticker} no such sticker'', None)]) = Returns ([], None) c1
       \<and> unread c1 = []"
    using T[THEN conjunct1, rule_format, of "[(''ACK [50@0] {sticker} no such sticker'', None)]" "''ACK [50@0] {sticker} no such sticker''" None "[]"] n1 i1
    by (simp add: sample_conn_def)
  moreover have "\<exists>c1. StickerGet ''song'' ''a.mp3'' ''playcount''
       (sample_conn [(''ACK [50@0] {sticker} No such song'', None)])
        = Returns ([], Some (ErrorString ''StickerGet: ACK [50@0] {sticker} No such song'')) c1
       \<and> unread c1 = []"
    using T[THEN conjunct2, THEN conjunct1, rule_format, of "[(''ACK [50@0] {sticker} No such song'', None)]" "''ACK [50@0] {sticker} No such song''" None "[]"] n2 i2
    by (simp add: sample_conn_def)
  moreover have "\<exists>c1. StickerGet ''song'' ''a.mp3'' ''playcount''
       (sample_conn [(''sticker: playcount=7'', None), (''OK'', None)]) = Returns (''7'', None) c1
       \<and> unread c1 = []"
    using T[THEN conjunct2, THEN conjunct2, THEN conjunct1, rule_format, of "[(''sticker: playcount=7'', None), (''OK'', None)]" "''sticker: playcount=7''" None "''OK''" None "[]"] m
    by (simp add: sample_conn_def)
  moreover have "\<exists>c1. StickerGet ''song'' ''a.mp3'' ''playcount''
       (sample_conn [(''sticker: playcount=7'', None), (''volume: 3'', None)])
        = Returns ([], Some (ErrorString ''StickerGet didn't receive OK line: volume: 3'')) c1
       \<and> unread c1 = []"
    using T[THEN conjunct2, THEN conjunct2, THEN conjunct1, rule_format, of "[(''sticker: playcount=7'', None), (''volume: 3'', None)]" "''sticker: playcount=7''" None "''volume: 3''" None "[]"] m
    by (simp add: sample_conn_def)
  moreover have "\<exists>c1. StickerGet ''song'' ''a.mp3'' ''playcount''
       (sample_conn [(''sticker: playcount=7'', None)]) = Blocks c1"
    using T[THEN conjunct2, THEN conjunct2, THEN conjunct2, rule_format, of "[(''sticker: playcount=7'', None)]" "''sticker: playcount=7''" None] m
    by (simp add: sample_conn_def)
  ultimately show ?thesis by blast
qed


subsection \<open>Atoi reads what Itoa prints\<close>

lemma digit_val_char: "d < 10 \<Longrightarrow> digit_val (char_of (48 + d)) = Some d"
  by (simp add: digit_val_def Let_def)

lemma ParseUint10_append:
  "ParseUint10 xs acc = (n, None) \<Longrightarrow> ParseUint10 (xs @ ys) acc = ParseUint10 ys n"
  by (induction xs arbitrary: acc) (auto split: option.splits if_splits)

lemma ParseUint10_digit:
  assumes "d < 10" "acc * 10 + d \<le> maxUint64"
  shows "ParseUint10 [char_of (48 + d)] acc = (acc * 10 + d, None)"
proof -
  have "\<not> acc \<ge> maxUint64 div 10 + 1"
  proof
    assume "acc \<ge> maxUint64 div 10 + 1"
    then have "acc * 10 \<ge> (maxUint64 div 10 + 1) * 10" by simp
    moreover have "(maxUint64 div 10 + 1) * 10 > maxUint64" by (simp add: maxUint64_def)
    ultimately show False using assms(2) by simp
  qed
  with assms show ?thesis by (simp add: digit_val_char)
qed

lemma ParseUint10_digits10: "m \<le> maxUint64 \<Longrightarrow> ParseUint10 (digits10 m) 0 = (m, None)"
proof (induction m rule: digits10.induct)
  case (1 n)
  show ?case
  proof (cases "n < 10")
    case True
    then have "digits10 n = [char_of (48 + n)]" by (subst digits10.simps) simp
    with ParseUint10_digit[of n 0] "1.prems" True show ?thesis by simp
  next
    case False
    from "1.prems" have le: "n div 10 \<le> maxUint64" by simp
    have ih: "ParseUint10 (digits10 (n div 10)) 0 = (n div 10, None)"
      using "1.IH"[OF False le] .
    have d: "ParseUint10 [char_of (48 + n mod 10)] (n div 10) = (n div 10 * 10 + n mod 10, None)"
      using "1.prems" by (intro ParseUint10_digit) simp_all
    have "digits10 n = digits10 (n div 10) @ [char_of (48 + n mod 10)]"
      using False by (subst digits10.simps) simp
    then show ?thesis using ParseUint10_append[OF ih, of "[char_of (48 + n mod 10)]"] d by simp
  qed
qed

lemma digit_char_not_sign:
  "(d::nat) < 10 \<Longrightarrow> char_of (48 + d) \<noteq> CHR ''+'' \<and> char_of (48 + d) \<noteq> CHR ''-''"
proof -
  assume d: "d < 10"
  then have o: "(of_char (char_of (48 + d)) :: nat) = 48 + d" by simp
  have "char_of (48 + d) \<noteq> CHR ''+''"
  proof
    assume "char_of (48 + d) = CHR ''+''"
    then have "(of_char (char_of (48 + d)) :: nat) = of_char (CHR ''+'')" by simp
    with o show False by simp
  qed
  moreover have "char_of (48 + d) \<noteq> CHR ''-''"
  proof
    assume "char_of (48 + d) = CHR ''-''"
    then have "(of_char (char_of (48 + d)) :: nat) = of_char (CHR ''-'')" by simp
    with o show False by simp
  qed
  ultimately show ?thesis by simp
qed

lemma digits10_head:
  "digits10 n \<noteq> [] \<and> hd (digits10 n) \<noteq> CHR ''+'' \<and> hd (digits10 n) \<noteq> CHR ''-''"
proof (induction n rule: digits10.induct)
  case (1 n)
  show ?case
  proof (cases "n < 10")
    case True
    then have "digits10 n = [char_of (48 + n)]" by (subst digits10.simps) simp
    with digit_char_not_sign[OF True] show ?thesis by simp
  next
    case False
    then have "digits10 n = digits10 (n div 10) @ [char_of (48 + n mod 10)]"
      by (subst digits10.simps) simp
    with "1.IH"[OF False] show ?thesis by simp
  qed
qed

lemma Atoi_Itoa: "Atoi (Itoa i) = (i, None)"
proof (cases "sint i < 0")
  case False
  let ?n = "nat (sint i)"
  have b: "?n < 2 ^ 63" using sint_lt[of i] False by simp
  then have m: "?n \<le> maxUint64" by (simp add: maxUint64_def)
  have w: "word_of_nat ?n = i" using False by simp
  from False have it: "Itoa i = digits10 ?n" by (simp add: Itoa_def)
  show ?thesis
    unfolding it using digits10_head[of ?n] ParseUint10_digits10[OF m] b w
    by (simp add: Atoi_def Let_def)
next
  case True
  let ?n = "nat (- sint i)"
  have b: "?n \<le> 2 ^ 63" using sint_ge[of i] True by simp
  then have m: "?n \<le> maxUint64" by (simp add: maxUint64_def)
  have "(word_of_nat ?n :: 64 word) = word_of_int (int ?n)" by simp
  then have "(word_of_nat ?n :: 64 word) = word_of_int (- sint i)" using True by simp
  then have w: "- (word_of_nat ?n :: 64 word) = i" by simp
  from True have it: "Itoa i = CHR ''-'' # digits10 ?n" by (simp add: Itoa_def)
  show ?thesis
    unfolding it using digits10_head[of ?n] ParseUint10_digits10[OF m] b w
    by (simp add: Atoi_def Let_def)
qed

subsection \<open>The sticker increment\<close>



lemma inc_after_get:
  assumes g: "StickerGet StickerSongType (at songInfo ''file'') playcountSticker c = Returns (v, None) c1"
    and r: "writes_ok c1" "in_sync c1" and u: "unread c1 = (l3, e3) # rest"
    and a: "Atoi (if length v = 0 then ''0'' else v) = (n, None)"
  shows "incSongPlayCount songInfo c =
     Returns (n + 1, if l3 \<noteq> ''OK'' then Some (ErrorString (''StickerSet: '' @ l3)) else None)
       (answered (sticker_set_cmd StickerSongType (at songInfo ''file'') playcountSticker (Itoa (n + 1))) rest c1)"
  using g a StickerSet_reply[OF r u, of StickerSongType "at songInfo ''file''" playcountSticker "Itoa (n + 1)"]
  by (simp add: incSongPlayCount_def bind_def ret_def Let_def)


lemma inc_get_error:
  assumes g: "StickerGet StickerSongType (at songInfo ''file'') playcountSticker c = Returns (v, Some err) c1"
  shows "incSongPlayCount songInfo c = Returns (- 1, Some err) c1"
  using g by (simp add: incSongPlayCount_def bind_def ret_def Let_def)




subsection \<open>Dispatch of a change to the subscriptions\<close>

lemma send_close:
  "\<not> closed (ch sub) \<Longrightarrow>
     bind (on_ch (chan_send name)) (\<lambda>_. Close_subscription) sub = Returns () (fulfilled name sub)"
  by (simp add: bind_def on_ch_def chan_send_def Close_subscription_def chan_close_def fulfilled_def)

lemma wanted_loop_absent:
  "name \<notin> set ws \<Longrightarrow> wanted_loop name ws sub = Returns () sub"
  by (induction ws) (auto simp: ret_def)

lemma wanted_loop_once:
  "distinct ws \<Longrightarrow> name \<in> set ws \<Longrightarrow> \<not> closed (ch sub) \<Longrightarrow>
     wanted_loop name ws sub = Returns () (fulfilled name sub)"
proof (induction ws)
  case Nil
  then show ?case by simp
next
  case (Cons w ws)
  show ?case
  proof (cases "w = name")
    case True
    with Cons.prems have "name \<notin> set ws" by simp
    then have "wanted_loop name ws (fulfilled name sub) = Returns () (fulfilled name sub)"
      by (rule wanted_loop_absent)
    with True Cons.prems(3) show ?thesis
      by (simp add: bind_def on_ch_def chan_send_def Close_subscription_def chan_close_def fulfilled_def)
  next
    case False
    with Cons show ?thesis by simp
  qed
qed

lemma notify_one_shot:
  "distinct (subsystems sub) \<Longrightarrow> (active sub \<longrightarrow> \<not> closed (ch sub)) \<Longrightarrow>
     notify name sub = Returns () (one_shot name sub)"
  using send_close[of sub name] wanted_loop_once[of "subsystems sub" name sub]
        wanted_loop_absent[of name "subsystems sub" sub]
  by (auto simp: notify_def one_shot_def)

lemma dispatch_one_shot:
  "\<forall>sub \<in> set subs. distinct (subsystems sub) \<and> (active sub \<longrightarrow> \<not> closed (ch sub)) \<Longrightarrow>
     dispatch name subs = Returns () (map (one_shot name) subs)"
  by (induction subs) (auto simp: notify_one_shot)

lemma idle_reply_changed:
  "unread c = (''changed: '' @ name, None) # (''OK'', None) # rest \<Longrightarrow>
     fillInfoUntilOK Map.empty c = Returns (None, [''changed'' \<mapsto> name]) (c\<lparr>unread := rest\<rparr>)"
  using fill_pairs[of c "[(''changed'', name)]" rest Map.empty]
  by (simp add: strings_Index_def)

lemma idle_round_reply:
  assumes "writes_ok (conn cl)" "in_sync (conn cl)"
    and f: "fillInfoUntilOK Map.empty
              ((conn cl)\<lparr>next_id := next_id (conn cl) + 1, sent := sent (conn cl) @ [''idle''],
                         wfail := tl (wfail (conn cl))\<rparr>)
            = Returns (None, info)
              ((conn cl)\<lparr>next_id := next_id (conn cl) + 1, sent := sent (conn cl) @ [''idle''],
                         wfail := tl (wfail (conn cl)), unread := rest\<rparr>)"
  shows "idle_round cl =
     (case info ''changed'' of
        Some subsystem \<Rightarrow> on_subscriptions (dispatch subsystem) (cl\<lparr>conn := idled rest (conn cl)\<rparr>)
      | None \<Rightarrow> Returns () (cl\<lparr>conn := idled rest (conn cl)\<rparr>))"
  using assms(2) f
  by (simp add: idle_round_def bind_def on_conn_def conn_Cmd_ok[OF assms(1)] StartResponse_def
        EndResponse_def in_sync_def idled_def ret_def split: option.splits)

lemma idle_round_changed:
  assumes "writes_ok (conn cl)" "in_sync (conn cl)"
    and u: "unread (conn cl) = (''changed: '' @ name, None) # (''OK'', None) # rest"
  shows "idle_round cl = on_subscriptions (dispatch name) (cl\<lparr>conn := idled rest (conn cl)\<rparr>)"
proof -
  let ?c = "(conn cl)\<lparr>next_id := next_id (conn cl) + 1, sent := sent (conn cl) @ [''idle''],
                         wfail := tl (wfail (conn cl))\<rparr>"
  have "fillInfoUntilOK Map.empty ?c = Returns (None, [''changed'' \<mapsto> name]) (?c\<lparr>unread := rest\<rparr>)"
    using u by (intro idle_reply_changed) simp
  from idle_round_reply[OF assms(1,2), of "[''changed'' \<mapsto> name]" rest] this
  show ?thesis by simp
qed

lemma idle_round_bare_OK:
  assumes "writes_ok (conn cl)" "in_sync (conn cl)"
    and u: "unread (conn cl) = (''OK'', None) # rest"
  shows "idle_round cl = Returns () (cl\<lparr>conn := idled rest (conn cl)\<rparr>)"
proof -
  let ?c = "(conn cl)\<lparr>next_id := next_id (conn cl) + 1, sent := sent (conn cl) @ [''idle''],
                         wfail := tl (wfail (conn cl))\<rparr>"
  have "fillInfoUntilOK Map.empty ?c = Returns (None, Map.empty) (?c\<lparr>unread := rest\<rparr>)"
    using u by (intro fill_OK) simp
  from idle_round_reply[OF assms(1,2), of Map.empty rest] this
  show ?thesis by simp
qed

lemma idle_round_one_shot:
  assumes "writes_ok (conn cl)" "in_sync (conn cl)"
    and u: "unread (conn cl) = (''changed: '' @ name, None) # (''OK'', None) # rest"
    and s: "\<forall>sub \<in> set (subscriptions cl). distinct (subsystems sub) \<and> (active sub \<longrightarrow> \<not> closed (ch sub))"
  shows "idle_round cl =
     Returns () (cl\<lparr>conn := idled rest (conn cl),
                    subscriptions := map (one_shot name) (subscriptions cl)\<rparr>)"
  using idle_round_changed[OF assms(1,2) u] dispatch_one_shot[of "subscriptions cl" name] s
  by (simp add: on_subscriptions_def)

text \<open>
  Claim C5. When no interest list names a subsystem twice, a reported name is delivered
  once to every active subscription whose interest list is empty or holds the name, and
  that subscription is closed; the other subscriptions are left as they are
  (\<open>idle_round_one_shot\<close>), and a bare \<open>OK\<close> delivers to nobody
  (\<open>idle_round_bare_OK\<close>). The loop over the interest list does not stop at the first
  match: for the subscriptions \<open>Idle("player", "player")\<close> and \<open>Idle()\<close> and the
  report \<open>changed: player\<close>, the first subscription is served and closed, the second
  match sends on the closed channel, and the panic ends the pass before the second
  subscription, whose interest list is empty, is served.
\<close>

theorem idle_round_repeated_interest:
  "idle_round
     (Idle [] (Idle [''player'', ''player'']
        \<lparr>Host = ''localhost'', Port = 6600,
         conn = sample_conn [(''changed: player'', None), (''OK'', None)],
         subscriptions = []\<rparr>))
   = Panics (RuntimeError ''send on closed channel'')
       \<lparr>Host = ''localhost'', Port = 6600,
        conn = \<lparr>sent = [''idle''], unread = [], wfail = [], next_id = 1, resp_id = 1\<rparr>,
        subscriptions =
          [\<lparr>ch = \<lparr>delivered = [''player''], closed = True\<rparr>, active = False,
            subsystems = [''player'', ''player'']\<rparr>,
           \<lparr>ch = \<lparr>delivered = [], closed = False\<rparr>, active = True, subsystems = []\<rparr>]\<rparr>"
proof -
  let ?cl = "Idle [] (Idle [''player'', ''player'']
        \<lparr>Host = ''localhost'', Port = 6600,
         conn = sample_conn [(''changed: player'', None), (''OK'', None)],
         subscriptions = []\<rparr>)"
  have c: "conn ?cl = sample_conn [(''changed: player'', None), (''OK'', None)]"
    by (simp add: Idle_def)
  have u: "unread (conn ?cl) = (''changed: '' @ ''player'', None) # (''OK'', None) # []"
    by (simp add: Idle_def sample_conn_def)
  have r: "writes_ok (conn ?cl)" "in_sync (conn ?cl)" by (simp_all add: c sample_ready)
  show ?thesis
    unfolding idle_round_changed[OF r u]
    by (simp add: Idle_def on_subscriptions_def notify_def idled_def sample_conn_def bind_def
          on_ch_def chan_send_def Close_subscription_def chan_close_def ret_def)
qed


subsection \<open>The commands written by an update step\<close>

lemma final_simps [simp]:
  "final (Returns a s) = s" "final (Blocks s) = s" "final (Panics m s) = s"
  by (simp_all add: final_def)

lemma final_bind:
  "final (bind m f c) = (case m c of Returns a c1 \<Rightarrow> final (f a c1) | Blocks c1 \<Rightarrow> c1 | Panics x c1 \<Rightarrow> c1)"
  by (simp add: bind_def split: outcome.splits)

lemma conn_Cmd_cases:
  "(\<exists>c1. conn_Cmd text c = Returns (next_id c, None) c1 \<and> sent c1 = sent c @ [text]
          \<and> resp_id c1 = resp_id c \<and> next_id c1 = next_id c + 1)
   \<or> (\<exists>e c1. conn_Cmd text c = Returns (0, Some e) c1 \<and> sent c1 = sent c)"
  by (cases "wfail c") (auto simp: conn_Cmd_def Let_def split: option.splits)

lemma noIdle_cases:
  "(\<exists>c1. noIdle c = Returns None c1 \<and> sent c1 = sent c @ [''noidle''])
   \<or> (\<exists>e c1. noIdle c = Returns (Some e) c1 \<and> sent c1 = sent c)
   \<or> (\<exists>c1. noIdle c = Blocks c1 \<and> sent c1 = sent c @ [''noidle''])"
proof -
  from conn_Cmd_cases[of "''noidle''" c] consider
    c1 where "conn_Cmd ''noidle'' c = Returns (next_id c, None) c1" "sent c1 = sent c @ [''noidle'']"
      "resp_id c1 = resp_id c"
  | e c1 where "conn_Cmd ''noidle'' c = Returns (0, Some e) c1" "sent c1 = sent c"
    by blast
  then show ?thesis
  proof cases
    case 1
    then show ?thesis
      by (cases "resp_id c = next_id c")
         (simp_all add: noIdle_def bind_def ret_def StartResponse_def EndResponse_def deferring_def)
  next
    case 2
    then show ?thesis by (simp add: noIdle_def bind_def ret_def)
  qed
qed

lemma Cmd_cases:
  "(\<exists>rid c1. Cmd cmd c = Returns (rid, None) c1 \<and> sent c1 = sent c @ [''noidle'', cmd])
   \<or> (\<exists>rid e c1. Cmd cmd c = Returns (rid, Some e) c1 \<and> (sent c1 = sent c \<or> sent c1 = sent c @ [''noidle'']))
   \<or> (\<exists>c1. Cmd cmd c = Blocks c1 \<and> sent c1 = sent c @ [''noidle''])"
proof -
  from noIdle_cases[of c] consider
    c1 where "noIdle c = Returns None c1" "sent c1 = sent c @ [''noidle'']"
  | e c1 where "noIdle c = Returns (Some e) c1" "sent c1 = sent c"
  | c1 where "noIdle c = Blocks c1" "sent c1 = sent c @ [''noidle'']"
    by blast
  then show ?thesis
  proof cases
    case 1
    with conn_Cmd_cases[of cmd c1] show ?thesis
      by (auto simp: Cmd_def bind_def ret_def)
  next
    case 2
    then show ?thesis by (auto simp: Cmd_def bind_def ret_def)
  next
    case 3
    then show ?thesis by (auto simp: Cmd_def bind_def ret_def)
  qed
qed

lemma fill_sent: "sent (final (fillInfoUntilOK info c)) = sent c"
proof (induction info c rule: fillInfoUntilOK.induct)
  case (1 info c)
  show ?case
  proof (cases "unread c")
    case Nil
    then show ?thesis by (subst fillInfoUntilOK.simps) (simp add: ReadLine_def)
  next
    case (Cons r rest)
    obtain line err where r: "r = (line, err)" by (cases r)
    show ?thesis
    proof (cases "err = None \<and> line \<noteq> ''OK'' \<and> fst (AddInfo info line) = None")
      case True
      then obtain info1 where a: "AddInfo info line = (None, info1)" by (cases "AddInfo info line") auto
      have rl: "ReadLine c = Returns (line, err) (c\<lparr>unread := rest\<rparr>)"
        using Cons r by (simp add: ReadLine_def)
      from True have e: "err = None" and l: "line \<noteq> ''OK''" by auto
      have "sent (final (fillInfoUntilOK info1 (c\<lparr>unread := rest\<rparr>))) = sent (c\<lparr>unread := rest\<rparr>)"
        using "1.IH"[OF rl refl e l a[symmetric] refl] .
      moreover have "fillInfoUntilOK info c = fillInfoUntilOK info1 (c\<lparr>unread := rest\<rparr>)"
        by (subst fillInfoUntilOK.simps) (simp add: rl e l a)
      ultimately show ?thesis by simp
    next
      case False
      then show ?thesis using Cons r
        by (subst fillInfoUntilOK.simps) (auto simp: ReadLine_def split: option.splits prod.splits)
    qed
  qed
qed

lemma bracket_sent:
  assumes "\<And>s. sent (final (body s)) = sent s"
  shows "sent (final (bind (startResponse rid) (\<lambda>_. deferring (endResponse rid) body) c)) = sent c"
proof (cases "resp_id c = rid")
  case False
  then show ?thesis by (simp add: bind_def startResponse_def StartResponse_def)
next
  case True
  have "sent (final (deferring (endResponse rid) body c)) = sent c"
    using assms[of c]
    by (cases "body c") (auto simp: deferring_def endResponse_def EndResponse_def)
  with True show ?thesis by (simp add: bind_def startResponse_def StartResponse_def)
qed

lemma op_trace:
  assumes body: "\<And>s. sent (final (body s)) = sent s"
  shows "sent (final (bind (Cmd cmd) (\<lambda>(rid, err). case err of Some e \<Rightarrow> ret (f e)
            | None \<Rightarrow> bind (startResponse rid) (\<lambda>_. deferring (endResponse rid) body)) c))
          = sent c @ [''noidle'', cmd]
     \<or> ((sent (final (bind (Cmd cmd) (\<lambda>(rid, err). case err of Some e \<Rightarrow> ret (f e)
            | None \<Rightarrow> bind (startResponse rid) (\<lambda>_. deferring (endResponse rid) body)) c)) = sent c
          \<or> sent (final (bind (Cmd cmd) (\<lambda>(rid, err). case err of Some e \<Rightarrow> ret (f e)
            | None \<Rightarrow> bind (startResponse rid) (\<lambda>_. deferring (endResponse rid) body)) c))
              = sent c @ [''noidle''])
         \<and> (\<forall>x c1. bind (Cmd cmd) (\<lambda>(rid, err). case err of Some e \<Rightarrow> ret (f e)
            | None \<Rightarrow> bind (startResponse rid) (\<lambda>_. deferring (endResponse rid) body)) c
              = Returns x c1 \<longrightarrow> (\<exists>e. x = f e)))"
proof -
  from Cmd_cases[of cmd c] consider
    rid c1 where "Cmd cmd c = Returns (rid, None) c1" "sent c1 = sent c @ [''noidle'', cmd]"
  | rid e c1 where "Cmd cmd c = Returns (rid, Some e) c1" "sent c1 = sent c \<or> sent c1 = sent c @ [''noidle'']"
  | c1 where "Cmd cmd c = Blocks c1" "sent c1 = sent c @ [''noidle'']"
    by blast
  then show ?thesis
  proof cases
    case 1
    then show ?thesis using bracket_sent[of body rid c1, OF body]
      by (simp add: final_bind)
  next
    case 2
    then show ?thesis by (auto simp: bind_def ret_def)
  next
    case 3
    then show ?thesis by (simp add: bind_def)
  qed
qed

lemma fill_body_sent:
  "sent (final (bind (fillInfoUntilOK Map.empty) (\<lambda>(err, info). case err of Some e \<Rightarrow> ret (Inl e) | None \<Rightarrow> ret (Inr info)) s)) = sent s"
  using fill_sent[of Map.empty s]
  by (cases "fillInfoUntilOK Map.empty s") (auto simp: bind_def ret_def split: option.splits)

lemma Status_trace:
  "sent (final (Status c)) = sent c @ [''noidle'', ''status'']
   \<or> ((sent (final (Status c)) = sent c \<or> sent (final (Status c)) = sent c @ [''noidle''])
       \<and> (\<forall>info c1. Status c \<noteq> Returns (Inr info) c1))"
  unfolding Status_def
  using op_trace[of "bind (fillInfoUntilOK Map.empty) (\<lambda>(err, info). case err of Some e \<Rightarrow> ret (Inl e) | None \<Rightarrow> ret (Inr info))" "''status''" Inl c, OF fill_body_sent]
  by auto

lemma CurrentSong_trace:
  "sent (final (CurrentSong c)) = sent c @ [''noidle'', ''currentsong'']
   \<or> ((sent (final (CurrentSong c)) = sent c \<or> sent (final (CurrentSong c)) = sent c @ [''noidle''])
       \<and> (\<forall>info c1. CurrentSong c \<noteq> Returns (Inr info) c1))"
  unfolding CurrentSong_def
  using op_trace[of "bind (fillInfoUntilOK Map.empty) (\<lambda>(err, info). case err of Some e \<Rightarrow> ret (Inl e) | None \<Rightarrow> ret (Inr info))" "''currentsong''" Inl c, OF fill_body_sent]
  by auto

lemma ReadLine_sent: "sent (final (ReadLine s)) = sent s"
  by (simp add: ReadLine_def split: list.splits)

lemma StickerSet_trace:
  "sent (final (StickerSet stype uri name v c)) = sent c @ [''noidle'', sticker_set_cmd stype uri name v]
   \<or> ((sent (final (StickerSet stype uri name v c)) = sent c
        \<or> sent (final (StickerSet stype uri name v c)) = sent c @ [''noidle''])
       \<and> (\<forall>c1. StickerSet stype uri name v c \<noteq> Returns None c1))"
proof -
  let ?body = "bind ReadLine (\<lambda>(line, err).
                  if line \<noteq> ''OK'' then ret (Some (ErrorString (''StickerSet: '' @ line)))
                  else ret None)"
  have b: "\<And>s. sent (final (?body s)) = sent s"
  proof -
    fix s show "sent (final (?body s)) = sent s"
      using ReadLine_sent[of s] by (cases "ReadLine s") (auto simp: bind_def ret_def)
  qed
  show ?thesis
    unfolding StickerSet_def
    using op_trace[of ?body "sticker_set_cmd stype uri name v" Some c, OF b]
    by auto
qed

lemma StickerGet_trace:
  "sent (final (StickerGet stype uri name c)) = sent c @ [''noidle'', sticker_get_cmd stype uri name]
   \<or> ((sent (final (StickerGet stype uri name c)) = sent c
        \<or> sent (final (StickerGet stype uri name c)) = sent c @ [''noidle''])
       \<and> (\<forall>v c1. StickerGet stype uri name c \<noteq> Returns (v, None) c1))"
proof -
  let ?body = "bind ReadLine (\<lambda>(line, err).
                  case FindStringSubmatch line of
                    None \<Rightarrow>
                      if \<not> isMPDError line then ret ([], None)
                      else if strings_Index line ''no such sticker'' \<noteq> - 1 then ret ([], None)
                      else ret ([], Some (ErrorString (''StickerGet: '' @ line)))
                  | Some match \<Rightarrow>
                      (let v = match ! 2 in
                       bind ReadLine (\<lambda>(okLine, err).
                         case err of
                           Some e \<Rightarrow> ret ([], Some e)
                         | None \<Rightarrow>
                             if okLine \<noteq> ''OK''
                             then ret ([], Some (ErrorString
                                    (''StickerGet didn't receive OK line: '' @ okLine)))
                             else ret (v, None))))"
  have b: "\<And>s. sent (final (?body s)) = sent s"
  proof -
    fix s :: conn
    show "sent (final (?body s)) = sent s"
    proof (cases "ReadLine s")
      case (Returns r s1)
      with ReadLine_sent[of s] have s1: "sent s1 = sent s" by simp
      obtain line err where r: "r = (line, err)" by (cases r)
      show ?thesis
      proof (cases "FindStringSubmatch line")
        case None
        with Returns r s1 show ?thesis by (simp add: bind_def ret_def)
      next
        case (Some m)
        have "sent (final (ReadLine s1)) = sent s1" by (rule ReadLine_sent)
        then show ?thesis using Returns r s1 Some
          by (cases "ReadLine s1") (auto simp: bind_def ret_def Let_def split: option.splits)
      qed
    next
      case (Blocks s1)
      with ReadLine_sent[of s] show ?thesis by (simp add: bind_def)
    next
      case (Panics m s1)
      with ReadLine_sent[of s] show ?thesis by (simp add: bind_def)
    qed
  qed
  show ?thesis
    unfolding StickerGet_def
    using op_trace[of ?body "sticker_get_cmd stype uri name" "\<lambda>e. ([], Some e)" c, OF b]
    by auto
qed

lemma inc_trace:
  "\<exists>ws. sent (final (incSongPlayCount songInfo c)) = sent c @ ws
     \<and> (\<exists>v. prefix ws [''noidle'', get_playcount songInfo, ''noidle'', set_playcount songInfo v])
     \<and> ((\<exists>n c1. incSongPlayCount songInfo c = Returns (n, None) c1)
          \<longrightarrow> (\<exists>v. ws = [''noidle'', get_playcount songInfo, ''noidle'', set_playcount songInfo v]))"
proof -
  let ?G = "StickerGet StickerSongType (at songInfo ''file'') playcountSticker"
  let ?g = "get_playcount songInfo"
  note gt = StickerGet_trace[of StickerSongType "at songInfo ''file''" playcountSticker c,
      folded get_playcount_def]
  show ?thesis
  proof (cases "?G c")
    case (Blocks c1)
    then have r: "incSongPlayCount songInfo c = Blocks c1"
      by (simp add: incSongPlayCount_def bind_def)
    from gt Blocks obtain ws where "sent c1 = sent c @ ws" "ws \<in> {[], [''noidle''], [''noidle'', ?g]}"
      by auto
    with r show ?thesis by (intro exI[of _ ws]) (auto intro!: exI[of _ "[]"])
  next
    case (Panics m c1)
    then have r: "incSongPlayCount songInfo c = Panics m c1"
      by (simp add: incSongPlayCount_def bind_def)
    from gt Panics obtain ws where "sent c1 = sent c @ ws" "ws \<in> {[], [''noidle''], [''noidle'', ?g]}"
      by auto
    with r show ?thesis by (intro exI[of _ ws]) (auto intro!: exI[of _ "[]"])
  next
    case (Returns x c1)
    obtain v err where x: "x = (v, err)" by (cases x)
    show ?thesis
    proof (cases err)
      case (Some e)
      with Returns x have r: "incSongPlayCount songInfo c = Returns (- 1, Some e) c1"
        by (simp add: incSongPlayCount_def bind_def ret_def)
      from gt Returns obtain ws where "sent c1 = sent c @ ws" "ws \<in> {[], [''noidle''], [''noidle'', ?g]}"
        by auto
      with r show ?thesis by (intro exI[of _ ws]) (auto intro!: exI[of _ "[]"])
    next
      case None
      with gt Returns x have s1: "sent c1 = sent c @ [''noidle'', ?g]" by auto
      let ?v1 = "if length v = 0 then ''0'' else v"
      obtain n aerr where a: "Atoi ?v1 = (n, aerr)" by (cases "Atoi ?v1")
      show ?thesis
      proof (cases aerr)
        case (Some e)
        with Returns x None a have r: "incSongPlayCount songInfo c = Returns (- 1, Some e) c1"
          by (simp add: incSongPlayCount_def bind_def ret_def Let_def)
        with s1 show ?thesis by (intro exI[of _ "[''noidle'', ?g]"]) auto
      next
        case an: None
        let ?S = "StickerSet StickerSongType (at songInfo ''file'') playcountSticker (Itoa (n + 1))"
        let ?s = "set_playcount songInfo (Itoa (n + 1))"
        have r: "incSongPlayCount songInfo c = bind ?S (\<lambda>err. ret (n + 1, err)) c1"
          using Returns x None a an
          by (simp add: incSongPlayCount_def bind_def Let_def)
        note st = StickerSet_trace[of StickerSongType "at songInfo ''file''" playcountSticker "Itoa (n + 1)" c1,
            folded set_playcount_def]
        have f: "sent (final (incSongPlayCount songInfo c)) = sent (final (?S c1))"
          unfolding r by (cases "?S c1") (simp_all add: bind_def ret_def)
        have ok: "(\<exists>m c2. incSongPlayCount songInfo c = Returns (m, None) c2) \<longrightarrow> (\<exists>c2. ?S c1 = Returns None c2)"
          unfolding r by (cases "?S c1") (auto simp: bind_def ret_def)
        from st consider "sent (final (?S c1)) = sent c1 @ [''noidle'', ?s]"
          | "sent (final (?S c1)) = sent c1" "\<forall>c2. ?S c1 \<noteq> Returns None c2"
          | "sent (final (?S c1)) = sent c1 @ [''noidle'']" "\<forall>c2. ?S c1 \<noteq> Returns None c2"
          by blast
        then show ?thesis
        proof cases
          case 1
          with f s1 show ?thesis
            by (intro exI[of _ "[''noidle'', ?g, ''noidle'', ?s]"]) auto
        next
          case 2
          with f s1 ok show ?thesis
            by (intro exI[of _ "[''noidle'', ?g]"]) auto
        next
          case 3
          with f s1 ok show ?thesis
            by (intro exI[of _ "[''noidle'', ?g, ''noidle'']"]) auto
        qed
      qed
    qed
  qed
qed

lemma check_trace:
  "\<exists>ws. sent (final (checkSongChange L si c)) = sent c @ ws
     \<and> ((prefix ws [''noidle'', ''status'']
           \<and> ((\<exists>si1 c1. checkSongChange L si c = Returns (None, si1) c1)
                \<longrightarrow> ws = [''noidle'', ''status'']))
        \<or> (changed_and_played L si c
           \<and> (\<exists>v. prefix ws [''noidle'', ''status'', ''noidle'', get_playcount (SongInfo si),
                               ''noidle'', set_playcount (SongInfo si) v]
                \<and> ((\<exists>si1 c1. checkSongChange L si c = Returns (None, si1) c1)
                     \<longrightarrow> ws = [''noidle'', ''status'', ''noidle'', get_playcount (SongInfo si),
                               ''noidle'', set_playcount (SongInfo si) v]))))"
proof -
  note stt = Status_trace[of c]
  show ?thesis
  proof (cases "\<exists>info c1. Status c = Returns (Inr info) c1")
    case False
    have f: "final (checkSongChange L si c) = final (Status c)"
      using False
      by (cases "Status c") (auto simp: checkSongChange_def bind_def ret_def split: sum.splits)
    have nr: "\<not> (\<exists>si1 c1. checkSongChange L si c = Returns (None, si1) c1)"
      using False
      by (cases "Status c") (auto simp: checkSongChange_def bind_def ret_def split: sum.splits)
    from stt obtain ws where "sent (final (Status c)) = sent c @ ws"
        "ws \<in> {[], [''noidle''], [''noidle'', ''status'']}" by auto
    with f nr show ?thesis by (intro exI[of _ ws]) auto
  next
    case True
    then obtain info c1 where s: "Status c = Returns (Inr info) c1" by blast
    with stt have s1: "sent c1 = sent c @ [''noidle'', ''status'']" by auto
    let ?played = "considerSongPlayed L (StatusInfo si) songPlayedThresholdSeconds"
    show ?thesis
    proof (cases "at info ''songid'' \<noteq> at (StatusInfo si) ''songid'' \<and> ?played = Value True")
      case False
      have "final (checkSongChange L si c) = c1"
        using s False
        by (cases ?played) (auto simp: checkSongChange_def bind_def ret_def)
      with s1 show ?thesis by (intro exI[of _ "[''noidle'', ''status'']"]) auto
    next
      case True
      with s have cp: "changed_and_played L si c" by (auto simp: changed_and_played_def)
      let ?I = "incSongPlayCount (SongInfo si)"
      have r: "checkSongChange L si c =
          bind ?I (\<lambda>(playcount, err). case err of Some e \<Rightarrow> ret (Some e, si)
                     | None \<Rightarrow> ret (None, si\<lparr>StatusInfo := info\<rparr>)) c1"
        using s True by (simp add: checkSongChange_def bind_def)
      have f: "sent (final (checkSongChange L si c)) = sent (final (?I c1))"
        unfolding r by (cases "?I c1") (auto simp: bind_def ret_def split: option.splits)
      have ok: "(\<exists>si1 c2. checkSongChange L si c = Returns (None, si1) c2)
          \<longrightarrow> (\<exists>n c2. ?I c1 = Returns (n, None) c2)"
        unfolding r by (cases "?I c1") (auto simp: bind_def ret_def split: option.splits)
      from inc_trace[of "SongInfo si" c1] obtain ws v where
        w: "sent (final (?I c1)) = sent c1 @ ws"
        and p: "prefix ws [''noidle'', get_playcount (SongInfo si), ''noidle'', set_playcount (SongInfo si) v]"
        and full: "(\<exists>n c2. ?I c1 = Returns (n, None) c2)
          \<longrightarrow> (\<exists>v. ws = [''noidle'', get_playcount (SongInfo si), ''noidle'', set_playcount (SongInfo si) v])"
        by blast
      show ?thesis
      proof (cases "\<exists>n c2. ?I c1 = Returns (n, None) c2")
        case True
        with full obtain v1 where ws: "ws = [''noidle'', get_playcount (SongInfo si), ''noidle'', set_playcount (SongInfo si) v1]"
          by blast
        show ?thesis
          using f w s1 cp ws
          by (intro exI[of _ "[''noidle'', ''status''] @ ws"]) (auto intro!: exI[of _ v1])
      next
        case False
        with ok have nr: "\<not> (\<exists>si1 c2. checkSongChange L si c = Returns (None, si1) c2)" by blast
        have "prefix ([''noidle'', ''status''] @ ws)
            ([''noidle'', ''status''] @ [''noidle'', get_playcount (SongInfo si), ''noidle'', set_playcount (SongInfo si) v])"
          using p by (simp only: same_prefix_prefix)
        then show ?thesis
          using f w s1 cp nr
          by (intro exI[of _ "[''noidle'', ''status''] @ ws"]) (auto intro!: exI[of _ v])
      qed
    qed
  qed
qed

lemma check_keeps_song:
  "checkSongChange L si c = Returns (err, si1) c1 \<Longrightarrow> SongInfo si1 = SongInfo si"
  by (auto simp: checkSongChange_def bind_def ret_def split: outcome.splits sum.splits if_splits option.splits prod.splits)

lemma update_trace:
  "sent (final (updateSongInfo si1 c1)) = sent c1 @ [''noidle'', ''currentsong'']
   \<or> sent (final (updateSongInfo si1 c1)) = sent c1
   \<or> sent (final (updateSongInfo si1 c1)) = sent c1 @ [''noidle'']"
proof -
  have "final (updateSongInfo si1 c1) = final (CurrentSong c1)"
    by (cases "CurrentSong c1") (auto simp: updateSongInfo_def bind_def ret_def split: sum.splits)
  with CurrentSong_trace[of c1] show ?thesis by auto
qed

lemma process_final:
  "final (processStateUpdate L si c) =
     (case checkSongChange L si c of
        Returns (None, si1) c1 \<Rightarrow> final (updateSongInfo si1 c1)
      | r \<Rightarrow> final r)"
proof (cases "checkSongChange L si c")
  case (Returns x c1)
  obtain err si1 where x: "x = (err, si1)" by (cases x)
  show ?thesis
  proof (cases err)
    case None
    with Returns x show ?thesis
      by (cases "updateSongInfo si1 c1")
         (auto simp: processStateUpdate_def bind_def ret_def split: option.splits)
  next
    case (Some e)
    with Returns x show ?thesis by (simp add: processStateUpdate_def bind_def ret_def)
  qed
qed (simp_all add: processStateUpdate_def bind_def)

text \<open>
  Claim C6. The commands that one update step hands to the connection are an initial part
  of \<open>noidle, status, noidle, currentsong\<close>, or, only when the fresh status has another
  song id than the recorded status and the played-check on the recorded status is true, an
  initial part of \<open>noidle, status, noidle, sticker get, noidle, sticker set, noidle,
  currentsong\<close>, where both sticker commands name the file of the current-song recorded
  before the step. So no step with an unchanged song id increments, the \<open>currentsong\<close>
  command comes after the increment, and the check itself leaves the recorded
  current-song as it was: it is replaced, after the check, by what \<open>CurrentSong\<close> returns.
\<close>

theorem processStateUpdate_commands:
  "(\<exists>ws. sent (final (processStateUpdate L si c)) = sent c @ ws
      \<and> (prefix ws [''noidle'', ''status'', ''noidle'', ''currentsong'']
         \<or> (changed_and_played L si c
            \<and> (\<exists>v. prefix ws [''noidle'', ''status'',
                               ''noidle'', get_playcount (SongInfo si),
                               ''noidle'', set_playcount (SongInfo si) v,
                               ''noidle'', ''currentsong'']))))
   \<and> (\<forall>err si1 c1. checkSongChange L si c = Returns (err, si1) c1
         \<longrightarrow> SongInfo si1 = SongInfo si)
   \<and> (\<forall>si2 c2. processStateUpdate L si c = Returns (None, si2) c2
         \<longrightarrow> (\<exists>si1 c1 song. checkSongChange L si c = Returns (None, si1) c1
                \<and> CurrentSong c1 = Returns (Inr song) c2
                \<and> si2 = si1\<lparr>SongInfo := song\<rparr>))"
proof (intro conjI allI impI)
  let ?A = "[''noidle'', ''status'']"
  let ?g = "get_playcount (SongInfo si)"
  let ?s = "set_playcount (SongInfo si)"
  let ?ok = "\<exists>si1 c1. checkSongChange L si c = Returns (None, si1) c1"
  from check_trace[of L si c] obtain ws where
    w: "sent (final (checkSongChange L si c)) = sent c @ ws"
    and sh: "(prefix ws ?A \<and> (?ok \<longrightarrow> ws = ?A))
        \<or> (changed_and_played L si c
           \<and> (\<exists>v. prefix ws [''noidle'', ''status'', ''noidle'', ?g, ''noidle'', ?s v]
                \<and> (?ok \<longrightarrow> ws = [''noidle'', ''status'', ''noidle'', ?g, ''noidle'', ?s v])))"
    by blast
  show "\<exists>ws. sent (final (processStateUpdate L si c)) = sent c @ ws
      \<and> (prefix ws [''noidle'', ''status'', ''noidle'', ''currentsong'']
         \<or> (changed_and_played L si c
            \<and> (\<exists>v. prefix ws [''noidle'', ''status'', ''noidle'', ?g, ''noidle'', ?s v,
                               ''noidle'', ''currentsong''])))"
  proof (cases ?ok)
    case False
    then have "final (processStateUpdate L si c) = final (checkSongChange L si c)"
      by (auto simp: process_final split: outcome.splits option.splits)
    with w have f: "sent (final (processStateUpdate L si c)) = sent c @ ws" by simp
    from sh show ?thesis
    proof
      assume "prefix ws ?A \<and> (?ok \<longrightarrow> ws = ?A)"
      then have "prefix ws (?A @ [''noidle'', ''currentsong''])" by (intro prefix_prefix) simp
      with f show ?thesis by (intro exI[of _ ws]) simp
    next
      assume b: "changed_and_played L si c
           \<and> (\<exists>v. prefix ws [''noidle'', ''status'', ''noidle'', ?g, ''noidle'', ?s v]
                \<and> (?ok \<longrightarrow> ws = [''noidle'', ''status'', ''noidle'', ?g, ''noidle'', ?s v]))"
      then obtain v where "prefix ws [''noidle'', ''status'', ''noidle'', ?g, ''noidle'', ?s v]" by blast
      then have "prefix ws ([''noidle'', ''status'', ''noidle'', ?g, ''noidle'', ?s v] @ [''noidle'', ''currentsong''])"
        by (rule prefix_prefix)
      with f b show ?thesis by (intro exI[of _ ws]) auto
    qed
  next
    case True
    then obtain si1 c1 where r: "checkSongChange L si c = Returns (None, si1) c1" by blast
    then have f: "final (processStateUpdate L si c) = final (updateSongInfo si1 c1)"
      by (simp add: process_final)
    from r w have c1: "sent c1 = sent c @ ws" by simp
    from update_trace[of si1 c1] obtain us where
      u: "sent (final (updateSongInfo si1 c1)) = sent c1 @ us"
      and up: "prefix us [''noidle'', ''currentsong'']"
      by (auto intro: that[of "[]"] that[of "[''noidle'']"] that[of "[''noidle'', ''currentsong'']"])
    from f u c1 have t: "sent (final (processStateUpdate L si c)) = sent c @ (ws @ us)" by simp
    from sh show ?thesis
    proof
      assume "prefix ws ?A \<and> (?ok \<longrightarrow> ws = ?A)"
      with True have "ws = ?A" by blast
      with up have "prefix (ws @ us) (?A @ [''noidle'', ''currentsong''])"
        by (simp only: same_prefix_prefix)
      with t show ?thesis by (intro exI[of _ "ws @ us"]) simp
    next
      assume b: "changed_and_played L si c
           \<and> (\<exists>v. prefix ws [''noidle'', ''status'', ''noidle'', ?g, ''noidle'', ?s v]
                \<and> (?ok \<longrightarrow> ws = [''noidle'', ''status'', ''noidle'', ?g, ''noidle'', ?s v]))"
      with True obtain v where wv: "ws = [''noidle'', ''status'', ''noidle'', ?g, ''noidle'', ?s v]" by blast
      with up have "prefix (ws @ us) ([''noidle'', ''status'', ''noidle'', ?g, ''noidle'', ?s v] @ [''noidle'', ''currentsong''])"
        by (simp only: same_prefix_prefix)
      with t b show ?thesis by (intro exI[of _ "ws @ us"]) auto
    qed
  qed
next
  fix err si1 c1
  assume "checkSongChange L si c = Returns (err, si1) c1"
  then show "SongInfo si1 = SongInfo si" by (rule check_keeps_song)
next
  fix si2 c2
  assume "processStateUpdate L si c = Returns (None, si2) c2"
  then show "\<exists>si1 c1 song. checkSongChange L si c = Returns (None, si1) c1
                \<and> CurrentSong c1 = Returns (Inr song) c2
                \<and> si2 = si1\<lparr>SongInfo := song\<rparr>"
    by (auto simp: processStateUpdate_def updateSongInfo_def bind_def ret_def
          split: outcome.splits option.splits sum.splits prod.splits)
qed

lemma Status_reply:
  assumes "writes_ok c" "in_sync c"
    and "unread c = map (\<lambda>(k, v). (k @ '': '' @ v, None)) kvs @ (''OK'', None) # rest"
    and "\<forall>(k, v) \<in> set kvs. strings_Index k '': '' = - 1"
  shows "Status c = Returns (Inr (map_of (rev kvs))) (answered ''status'' rest c)"
proof -
  have "fillInfoUntilOK Map.empty (issued ''status'' c)
      = Returns (None, Map.empty ++ map_of (rev kvs)) ((issued ''status'' c)\<lparr>unread := rest\<rparr>)"
    using assms(3,4) by (intro fill_pairs) (simp_all add: unread_issued)
  then show ?thesis
    unfolding Status_def
    apply (subst bind_def)
    apply (simp add: Cmd_ok[OF assms(1,2)])
    apply (rule bracket_returns)
    apply (simp add: bind_def ret_def)
    done
qed

lemma CurrentSong_reply:
  assumes "writes_ok c" "in_sync c"
    and "unread c = map (\<lambda>(k, v). (k @ '': '' @ v, None)) kvs @ (''OK'', None) # rest"
    and "\<forall>(k, v) \<in> set kvs. strings_Index k '': '' = - 1"
  shows "CurrentSong c = Returns (Inr (map_of (rev kvs))) (answered ''currentsong'' rest c)"
proof -
  have "fillInfoUntilOK Map.empty (issued ''currentsong'' c)
      = Returns (None, Map.empty ++ map_of (rev kvs)) ((issued ''currentsong'' c)\<lparr>unread := rest\<rparr>)"
    using assms(3,4) by (intro fill_pairs) (simp_all add: unread_issued)
  then show ?thesis
    unfolding CurrentSong_def
    apply (subst bind_def)
    apply (simp add: Cmd_ok[OF assms(1,2)])
    apply (rule bracket_returns)
    apply (simp add: bind_def ret_def)
    done
qed

lemma song_ended_status:
  "Status song_ended =
     Returns (Inr [''songid'' \<mapsto> ''2'', ''time'' \<mapsto> ''0:200''])
       (answered ''status'' [(''sticker: playcount=41'', None), (''OK'', None),
          (''OK'', None), (''file: b.mp3'', None), (''OK'', None)] song_ended)"
proof -
  have "Status song_ended = Returns (Inr (map_of (rev [(''songid'', ''2''), (''time'', ''0:200'')])))
       (answered ''status'' [(''sticker: playcount=41'', None), (''OK'', None),
          (''OK'', None), (''file: b.mp3'', None), (''OK'', None)] song_ended)"
    by (rule Status_reply) (simp_all add: song_ended_def sample_ready, simp_all add: sample_conn_def strings_Index_def)
  moreover have "map_of (rev [(''songid'', ''2''), (''time'', ''0:200'')]) = [''songid'' \<mapsto> ''2'', ''time'' \<mapsto> ''0:200'']"
    by (auto simp: fun_eq_iff)
  ultimately show ?thesis by simp
qed

lemma sample_played:
  "considerSongPlayed whole_seconds (StatusInfo sample_tracker) songPlayedThresholdSeconds = Value True"
proof -
  have "Progress whole_seconds (StatusInfo sample_tracker) = Value (118, 120)"
    using Progress_split[of "StatusInfo sample_tracker" "''118''" "''120''" whole_seconds]
    by (simp add: sample_tracker_def whole_seconds_samples)
  then show ?thesis
    by (simp add: considerSongPlayed_def songPlayedThresholdSeconds_def)
qed

lemma song_ended_run:
  "processStateUpdate whole_seconds sample_tracker song_ended =
     Returns (None, \<lparr>StatusInfo = [''songid'' \<mapsto> ''2'', ''time'' \<mapsto> ''0:200''],
                     SongInfo = [''file'' \<mapsto> ''b.mp3'']\<rparr>)
       \<lparr>sent = [''noidle'', ''status'',
                ''noidle'', get_playcount [''file'' \<mapsto> ''a.mp3''],
                ''noidle'', set_playcount [''file'' \<mapsto> ''a.mp3''] ''42'',
                ''noidle'', ''currentsong''],
        unread = [], wfail = [], next_id = 8, resp_id = 8\<rparr>"
proof -
  let ?r3 = "[(''file: b.mp3'', None), (''OK'', None)]"
  let ?r2 = "(''OK'', None) # ?r3"
  let ?r1 = "(''sticker: playcount=41'', None) # (''OK'', None) # ?r2"
  let ?info = "[''songid'' \<mapsto> ''2'', ''time'' \<mapsto> ''0:200'']"
  let ?song = "[''file'' \<mapsto> ''a.mp3'']"
  let ?c1 = "answered ''status'' ?r1 song_ended"
  let ?c2 = "answered (get_playcount ?song) ?r2 ?c1"
  let ?c3 = "answered (set_playcount ?song ''42'') ?r3 ?c2"
  let ?c4 = "answered ''currentsong'' [] ?c3"
  have w0: "writes_ok song_ended" "in_sync song_ended" by (simp_all add: song_ended_def sample_ready)
  have w1: "writes_ok ?c1" "in_sync ?c1" using answered_ready[OF w0(1)] by blast+
  have w2: "writes_ok ?c2" "in_sync ?c2" using answered_ready[OF w1(1)] by blast+
  have w3: "writes_ok ?c3" "in_sync ?c3" using answered_ready[OF w2(1)] by blast+
  have st: "Status song_ended = Returns (Inr ?info) ?c1" by (rule song_ended_status)
  have m: "FindStringSubmatch ''sticker: playcount=41'' = Some [''sticker: playcount=41'', ''playcount'', ''41'']"
    using FindStringSubmatch_shape[of "''playcount''" "''41''"] by (simp add: newline_def)
  have g: "StickerGet StickerSongType (at ?song ''file'') playcountSticker ?c1 = Returns (''41'', None) ?c2"
    using StickerGet_match[OF w1, of "''sticker: playcount=41''" None "''OK''" None ?r2, OF _ m,
        of StickerSongType "at ?song ''file''" playcountSticker]
    by (simp add: answered_fields get_playcount_def)
  have a: "Atoi (if length ''41'' = 0 then ''0'' else ''41'') = (41, None)"
    by (simp add: Atoi_def digit_val_def maxUint64_def)
  have i42: "Itoa 42 = ''42''" by code_simp
  have inc: "incSongPlayCount ?song ?c1 = Returns (42, None) ?c3"
    using inc_after_get[OF g w2 _ a, of "''OK''" None ?r3]
    by (simp add: answered_fields i42 set_playcount_def)
  have chk: "checkSongChange whole_seconds sample_tracker song_ended
      = Returns (None, sample_tracker\<lparr>StatusInfo := ?info\<rparr>) ?c3"
    using st sample_played inc
    by (simp add: checkSongChange_def bind_def ret_def at_def sample_tracker_def)
  have cs: "CurrentSong ?c3 = Returns (Inr (map_of (rev [(''file'', ''b.mp3'')]))) ?c4"
    by (rule CurrentSong_reply[OF w3]) (simp_all add: answered_fields strings_Index_def)
  have upd: "processStateUpdate whole_seconds sample_tracker song_ended
      = Returns (None, sample_tracker\<lparr>StatusInfo := ?info, SongInfo := [''file'' \<mapsto> ''b.mp3'']\<rparr>) ?c4"
    using chk cs by (simp add: processStateUpdate_def updateSongInfo_def bind_def ret_def)
  show ?thesis
    unfolding upd
    by (simp add: sample_tracker_def answered_def song_ended_def sample_conn_def)
qed

lemma same_song_run:
  "processStateUpdate whole_seconds sample_tracker same_song =
     Returns (None, \<lparr>StatusInfo = [''songid'' \<mapsto> ''1'', ''time'' \<mapsto> ''119:120''],
                     SongInfo = [''file'' \<mapsto> ''a.mp3'']\<rparr>)
       \<lparr>sent = [''noidle'', ''status'', ''noidle'', ''currentsong''],
        unread = [], wfail = [], next_id = 4, resp_id = 4\<rparr>"
proof -
  let ?r1 = "[(''file: a.mp3'', None), (''OK'', None)]"
  let ?info = "[''songid'' \<mapsto> ''1'', ''time'' \<mapsto> ''119:120'']"
  let ?c1 = "answered ''status'' ?r1 same_song"
  let ?c2 = "answered ''currentsong'' [] ?c1"
  have w0: "writes_ok same_song" "in_sync same_song" by (simp_all add: same_song_def sample_ready)
  have w1: "writes_ok ?c1" "in_sync ?c1" using answered_ready[OF w0(1)] by blast+
  have "Status same_song = Returns (Inr (map_of (rev [(''songid'', ''1''), (''time'', ''119:120'')]))) ?c1"
    by (rule Status_reply[OF w0]) (simp_all add: same_song_def sample_conn_def strings_Index_def)
  moreover have "map_of (rev [(''songid'', ''1''), (''time'', ''119:120'')]) = ?info"
    by (auto simp: fun_eq_iff)
  ultimately have st: "Status same_song = Returns (Inr ?info) ?c1" by simp
  have chk: "checkSongChange whole_seconds sample_tracker same_song
      = Returns (None, sample_tracker\<lparr>StatusInfo := ?info\<rparr>) ?c1"
    using st by (simp add: checkSongChange_def bind_def ret_def at_def sample_tracker_def)
  have cs: "CurrentSong ?c1 = Returns (Inr (map_of (rev [(''file'', ''a.mp3'')]))) ?c2"
    by (rule CurrentSong_reply[OF w1]) (simp_all add: answered_fields strings_Index_def)
  have upd: "processStateUpdate whole_seconds sample_tracker same_song
      = Returns (None, sample_tracker\<lparr>StatusInfo := ?info, SongInfo := [''file'' \<mapsto> ''a.mp3'']\<rparr>) ?c2"
    using chk cs by (simp add: processStateUpdate_def updateSongInfo_def bind_def ret_def)
  show ?thesis
    unfolding upd
    by (simp add: sample_tracker_def answered_def same_song_def sample_conn_def)
qed

lemma song_ended_check:
  "checkSongChange whole_seconds sample_tracker song_ended
     = Returns (None, sample_tracker\<lparr>StatusInfo := [''songid'' \<mapsto> ''2'', ''time'' \<mapsto> ''0:200'']\<rparr>)
         (final (checkSongChange whole_seconds sample_tracker song_ended))"
proof -
  have "\<exists>si1 c1 song. checkSongChange whole_seconds sample_tracker song_ended = Returns (None, si1) c1
      \<and> CurrentSong c1 = Returns (Inr song) (final (processStateUpdate whole_seconds sample_tracker song_ended))
      \<and> \<lparr>StatusInfo = [''songid'' \<mapsto> ''2'', ''time'' \<mapsto> ''0:200''],
                     SongInfo = [''file'' \<mapsto> ''b.mp3'']\<rparr> = si1\<lparr>SongInfo := song\<rparr>"
    using song_ended_run
    by (auto simp: processStateUpdate_def updateSongInfo_def bind_def ret_def
          split: outcome.splits option.splits sum.splits prod.splits)
  then obtain si1 c1 song where k: "checkSongChange whole_seconds sample_tracker song_ended = Returns (None, si1) c1"
    and eq: "\<lparr>StatusInfo = [''songid'' \<mapsto> ''2'', ''time'' \<mapsto> ''0:200''],
                     SongInfo = [''file'' \<mapsto> ''b.mp3'']\<rparr> = si1\<lparr>SongInfo := song\<rparr>"
    by blast
  from eq have "StatusInfo si1 = [''songid'' \<mapsto> ''2'', ''time'' \<mapsto> ''0:200'']"
    by (cases si1) simp
  moreover from k have "SongInfo si1 = SongInfo sample_tracker" by (rule check_keeps_song)
  ultimately have "si1 = sample_tracker\<lparr>StatusInfo := [''songid'' \<mapsto> ''2'', ''time'' \<mapsto> ''0:200'']\<rparr>"
    by (cases si1) (simp add: sample_tracker_def)
  with k show ?thesis by simp
qed

theorem processStateUpdate_commands_witness:
  "sent (final (processStateUpdate whole_seconds sample_tracker song_ended))
     = [''noidle'', ''status'',
        ''noidle'', get_playcount (SongInfo sample_tracker),
        ''noidle'', set_playcount (SongInfo sample_tracker) ''42'',
        ''noidle'', ''currentsong'']
   \<and> changed_and_played whole_seconds sample_tracker song_ended
   \<and> sent (final (processStateUpdate whole_seconds sample_tracker same_song))
     = [''noidle'', ''status'', ''noidle'', ''currentsong'']
   \<and> (\<exists>c1. checkSongChange whole_seconds sample_tracker song_ended
               = Returns (None, sample_tracker\<lparr>StatusInfo := [''songid'' \<mapsto> ''2'', ''time'' \<mapsto> ''0:200'']\<rparr>) c1)
   \<and> SongInfo (sample_tracker\<lparr>StatusInfo := [''songid'' \<mapsto> ''2'', ''time'' \<mapsto> ''0:200'']\<rparr>)
       = SongInfo sample_tracker"
proof -
  let ?full = "[''noidle'', ''status'',
        ''noidle'', get_playcount (SongInfo sample_tracker),
        ''noidle'', set_playcount (SongInfo sample_tracker) ''42'',
        ''noidle'', ''currentsong'']"
  let ?short = "[''noidle'', ''status'', ''noidle'', ''currentsong'']"
  have s1: "sent (final (processStateUpdate whole_seconds sample_tracker song_ended)) = ?full"
    unfolding song_ended_run by (simp add: sample_tracker_def)
  have e: "sent song_ended = []" by (simp add: song_ended_def sample_conn_def)
  have g: "get_playcount (SongInfo sample_tracker) \<noteq> ''currentsong''"
    by (simp add: get_playcount_def sticker_get_cmd_def)
  have np: "\<not> prefix ?full ?short"
    using g by simp
  from processStateUpdate_commands[of whole_seconds sample_tracker song_ended, THEN conjunct1]
  obtain ws where a: "sent (final (processStateUpdate whole_seconds sample_tracker song_ended)) = sent song_ended @ ws"
    and b: "prefix ws ?short \<or> (changed_and_played whole_seconds sample_tracker song_ended
            \<and> (\<exists>v. prefix ws [''noidle'', ''status'',
                               ''noidle'', get_playcount (SongInfo sample_tracker),
                               ''noidle'', set_playcount (SongInfo sample_tracker) v,
                               ''noidle'', ''currentsong'']))"
    by blast
  from a s1 e have "ws = ?full" by simp
  with np b have cp: "changed_and_played whole_seconds sample_tracker song_ended" by blast
  have s2: "sent (final (processStateUpdate whole_seconds sample_tracker same_song)) = ?short"
    unfolding same_song_run by simp
  note k = song_ended_check
  from processStateUpdate_commands[of whole_seconds sample_tracker song_ended, THEN conjunct2, THEN conjunct1, rule_format, OF k]
  have keep: "SongInfo (sample_tracker\<lparr>StatusInfo := [''songid'' \<mapsto> ''2'', ''time'' \<mapsto> ''0:200'']\<rparr>)
       = SongInfo sample_tracker" .
  from s1 cp s2 k keep show ?thesis by blast
qed


subsection \<open>A command during the wait\<close>

lemma reply_length_le: "reply_length xs \<le> length xs"
  by (induction xs rule: reply_length.induct) auto

lemma inv_waiting: "inv k (unread c) (sent c) cmd (waiting k c)"
  by (auto simp: inv_def waiting_def idle_view_def cmd_view_def finished_def intro!: exI[of _ 0])

lemma AddInfo_error_iff:
  "(\<exists>e i. AddInfo info line = (Some e, i)) \<longleftrightarrow> strings_Index line infoFieldSep = - 1"
  by (auto simp: AddInfo_def Let_def)

lemma drop_step:
  assumes "n \<le> length stream" "drop n stream = x # rest"
  shows "Suc n \<le> length stream" "drop (Suc n) stream = rest"
proof -
  from assms(2) have "n < length stream" by (cases "n < length stream") auto
  then show "Suc n \<le> length stream" by simp
  have "drop (Suc n) stream = tl (drop n stream)" by (simp add: drop_Suc tl_drop)
  with assms(2) show "drop (Suc n) stream = rest" by simp
qed

lemma idle_step_inv:
  assumes i: "inv k stream s0 cmd w" and s: "idle_step k (idler w) (wire w) = Some (p, c)"
  shows "inv k stream s0 cmd (w\<lparr>wire := c, idler := p\<rparr>)"
proof (cases "idler w")
  case (I_reading info)
  with i obtain n where r: "resp_id (wire w) = k" and n: "n \<le> length stream"
    and u: "unread (wire w) = drop n stream"
    and l: "reply_length stream = n + reply_length (unread (wire w))"
    by (auto simp: inv_def idle_view_def)
  from s I_reading obtain x rest where ux: "unread (wire w) = x # rest"
    by (cases "unread (wire w)") (auto simp: ReadLine_def)
  obtain line err where x: "x = (line, err)" by (cases x)
  from ux have c: "c = (wire w)\<lparr>unread := rest\<rparr>"
    using s I_reading x by (auto simp: ReadLine_def split: option.splits if_splits prod.splits)
  from u ux have dx: "drop n stream = x # rest" by simp
  note n1 = drop_step(1)[OF n dx] and d1 = drop_step(2)[OF n dx]
  have nf: "\<not> finished (idler w)" using I_reading by (simp add: finished_def)
  from i nf have cv: "cmd_view k stream s0 cmd p (caller w) c" if "\<not> finished p"
    using that c by (auto simp: inv_def cmd_view_def split: cmd_pc.splits)
  show ?thesis
  proof (cases "err \<noteq> None \<or> line = ''OK'' \<or> strings_Index line infoFieldSep = - 1")
    case True
    then have "reply_length (unread (wire w)) = 1" using ux x by simp
    with l have rl: "reply_length stream = Suc n" by simp
    from True obtain e1 i1 where p: "p = I_ending e1 i1"
      using s I_reading ux x AddInfo_error_iff[of info line]
      by (auto simp: ReadLine_def split: option.splits if_splits prod.splits)
    have "idle_view k stream p c" using p r c d1 rl by (simp add: idle_view_def)
    moreover have "cmd_view k stream s0 cmd p (caller w) c"
      using cv p by (simp add: finished_def)
    ultimately show ?thesis by (simp add: inv_def)
  next
    case False
    then have "reply_length (unread (wire w)) = Suc (reply_length rest)" using ux x by simp
    with l have rl: "reply_length stream = Suc n + reply_length rest" by simp
    from False obtain i1 where p: "p = I_reading i1"
      using s I_reading ux x AddInfo_error_iff[of info line]
      by (auto simp: ReadLine_def split: option.splits if_splits prod.splits)
    have "idle_view k stream p c" using p r c d1 rl n1
      by (auto simp: idle_view_def intro!: exI[of _ "Suc n"])
    moreover have "cmd_view k stream s0 cmd p (caller w) c"
      using cv p by (simp add: finished_def)
    ultimately show ?thesis by (simp add: inv_def)
  qed
next
  case (I_ending err info)
  with i have r: "resp_id (wire w) = k" and u: "unread (wire w) = drop (reply_length stream) stream"
    by (auto simp: inv_def idle_view_def)
  from s I_ending r have p: "p = I_done err info" and c: "c = (wire w)\<lparr>resp_id := k + 1\<rparr>"
    by (auto simp: EndResponse_def)
  have nf: "\<not> finished (idler w)" using I_ending by (simp add: finished_def)
  have "cmd_view k stream s0 cmd p (caller w) c"
    using i nf p c u by (auto simp: inv_def cmd_view_def finished_def split: cmd_pc.splits)
  then show ?thesis using p by (simp add: inv_def idle_view_def)
next
  case (I_done err info)
  with s show ?thesis by simp
next
  case I_out_of_sync
  with s show ?thesis by simp
qed

lemma cmd_step_inv:
  assumes i: "inv k stream s0 cmd w" and s: "cmd_step cmd (caller w) (wire w) = Some (p, c)"
  shows "inv k stream s0 cmd (w\<lparr>wire := c, caller := p\<rparr>)"
proof -
  from i have iv: "idle_view k stream (idler w) (wire w)"
    and cv: "cmd_view k stream s0 cmd (idler w) (caller w) (wire w)"
    by (simp_all add: inv_def)
  have keep: "idle_view k stream (idler w) c"
    if "resp_id c = resp_id (wire w)" "unread c = unread (wire w)" for c
    using iv that by (auto simp: idle_view_def split: idle_pc.splits)
  show ?thesis
  proof (cases "caller w")
    case U_noidle
    from conn_Cmd_cases[of "''noidle''" "wire w"] s U_noidle cv
    have "cmd_view k stream s0 cmd (idler w) p c \<and> resp_id c = resp_id (wire w) \<and> unread c = unread (wire w)"
      by (cases "wfail (wire w)")
         (auto simp: cmd_view_def conn_Cmd_def Let_def split: option.splits)
    with keep show ?thesis by (simp add: inv_def)
  next
    case (U_start_noidle rid)
    with s have r: "resp_id (wire w) = rid" and p: "p = U_end_noidle rid" and c: "c = wire w"
      by (auto simp: StartResponse_def split: if_splits)
    from cv U_start_noidle r have f: "finished (idler w)"
      using iv by (auto simp: cmd_view_def idle_view_def finished_def split: idle_pc.splits)
    with cv U_start_noidle p c have "cmd_view k stream s0 cmd (idler w) p c"
      by (simp add: cmd_view_def)
    with iv c show ?thesis by (simp add: inv_def)
  next
    case (U_end_noidle rid)
    with cv have r: "resp_id (wire w) = rid" and rk: "rid = k + 1" and f: "finished (idler w)"
      by (simp_all add: cmd_view_def)
    with s U_end_noidle have p: "p = U_cmd" and c: "c = (wire w)\<lparr>resp_id := rid + 1\<rparr>"
      by (auto simp: EndResponse_def)
    from cv U_end_noidle p c rk have "cmd_view k stream s0 cmd (idler w) p c"
      by (simp add: cmd_view_def)
    moreover from f iv have "idle_view k stream (idler w) c"
      by (auto simp: idle_view_def finished_def split: idle_pc.splits)
    ultimately show ?thesis by (simp add: inv_def)
  next
    case U_cmd
    from s U_cmd cv
    have "cmd_view k stream s0 cmd (idler w) p c"
      by (cases "wfail (wire w)")
         (auto simp: cmd_view_def conn_Cmd_def Let_def split: option.splits)
    moreover from cv U_cmd iv have "idle_view k stream (idler w) c"
      by (auto simp: cmd_view_def idle_view_def finished_def split: idle_pc.splits)
    ultimately show ?thesis by (simp add: inv_def)
  next
    case (U_start rid)
    with s have p: "p = U_reading rid []" and c: "c = wire w"
      by (auto simp: startResponse_def StartResponse_def split: if_splits)
    with cv U_start have "cmd_view k stream s0 cmd (idler w) p c" by (simp add: cmd_view_def)
    with iv c show ?thesis by (simp add: inv_def)
  next
    case (U_reading rid seen)
    with s obtain r rest where u: "unread (wire w) = r # rest" and p: "p = U_reading rid (seen @ [r])"
      and c: "c = (wire w)\<lparr>unread := rest\<rparr>"
      by (cases "unread (wire w)") (auto simp: ReadLine_def)
    with cv U_reading have "cmd_view k stream s0 cmd (idler w) p c" by (simp add: cmd_view_def)
    moreover from cv U_reading iv have "idle_view k stream (idler w) c"
      by (auto simp: cmd_view_def idle_view_def finished_def split: idle_pc.splits)
    ultimately show ?thesis by (simp add: inv_def)
  next
    case (U_failed e)
    with s show ?thesis by simp
  next
    case U_out_of_sync
    with s show ?thesis by simp
  qed
qed

lemma step_inv: "inv k stream s0 cmd w \<Longrightarrow> step k cmd w w1 \<Longrightarrow> inv k stream s0 cmd w1"
  using idle_step_inv[of k stream s0 cmd w] cmd_step_inv[of k stream s0 cmd w]
  by (auto simp: step_def split: option.splits)

lemma reach_inv:
  "(step k cmd)\<^sup>*\<^sup>* w0 w \<Longrightarrow> inv k stream s0 cmd w0 \<Longrightarrow> inv k stream s0 cmd w"
  by (induction rule: rtranclp_induct) (auto intro: step_inv)

lemma Cmd_taken_apart: "Cmd cmd c = as_outcome (run_cmd 4 cmd U_noidle c)"
proof -
  have n4: "(4::nat) = Suc (Suc (Suc (Suc 0)))" by simp
  show ?thesis
    unfolding n4
    by (cases "wfail c"; cases "resp_id c = next_id c")
       (auto simp: Cmd_def noIdle_def bind_def ret_def deferring_def conn_Cmd_def Let_def
          StartResponse_def EndResponse_def startResponse_def
          split: option.splits list.splits)
qed

lemma play_reaches: "play sched k cmd w = Some w1 \<Longrightarrow> (step k cmd)\<^sup>*\<^sup>* w w1"
proof (induction sched arbitrary: w)
  case Nil
  then show ?case by simp
next
  case (Cons b sched)
  show ?case
  proof (cases b)
    case True
    with Cons.prems obtain p c where s: "idle_step k (idler w) (wire w) = Some (p, c)"
      and r: "play sched k cmd (w\<lparr>wire := c, idler := p\<rparr>) = Some w1"
      by (auto split: option.splits)
    from s have "step k cmd w (w\<lparr>wire := c, idler := p\<rparr>)" by (simp add: step_def)
    then show ?thesis using Cons.IH[OF r] by (rule converse_rtranclp_into_rtranclp)
  next
    case False
    with Cons.prems obtain p c where s: "cmd_step cmd (caller w) (wire w) = Some (p, c)"
      and r: "play sched k cmd (w\<lparr>wire := c, caller := p\<rparr>) = Some w1"
      by (auto split: option.splits)
    from s have "step k cmd w (w\<lparr>wire := c, caller := p\<rparr>)" by (simp add: step_def)
    then show ?thesis using Cons.IH[OF r] by (rule converse_rtranclp_into_rtranclp)
  qed
qed

lemma Cmd_pending:
  "resp_id c \<noteq> next_id c \<Longrightarrow>
     sent (final (Cmd cmd c)) = sent c \<or> sent (final (Cmd cmd c)) = sent c @ [''noidle'']"
  by (cases "wfail c")
     (auto simp: Cmd_def noIdle_def bind_def ret_def conn_Cmd_def Let_def StartResponse_def
        split: option.splits)

lemma wait_reached:
  assumes "(step k cmd)\<^sup>*\<^sup>* (waiting k c) w"
  shows "(sent (wire w) = sent c \<or> sent (wire w) = sent c @ [''noidle'']
        \<or> (sent (wire w) = sent c @ [''noidle'', cmd] \<and> finished (idler w)))
   \<and> (\<forall>rid seen. caller w = U_reading rid seen \<longrightarrow>
         finished (idler w) \<and> sent (wire w) = sent c @ [''noidle'', cmd]
         \<and> seen @ unread (wire w) = drop (reply_length (unread c)) (unread c))
   \<and> (\<forall>name rest rid seen.
         unread c = (''changed: '' @ name, None) # (''OK'', None) # rest
           \<and> caller w = U_reading rid seen
         \<longrightarrow> prefix seen rest)"
proof -
  from assms have i: "inv k (unread c) (sent c) cmd w"
    using inv_waiting by (rule reach_inv)
  then have cv: "cmd_view k (unread c) (sent c) cmd (idler w) (caller w) (wire w)"
    by (simp add: inv_def)
  have a: "sent (wire w) = sent c \<or> sent (wire w) = sent c @ [''noidle'']
        \<or> (sent (wire w) = sent c @ [''noidle'', cmd] \<and> finished (idler w))"
    using cv by (auto simp: cmd_view_def split: cmd_pc.splits)
  have b: "\<forall>rid seen. caller w = U_reading rid seen \<longrightarrow>
         finished (idler w) \<and> sent (wire w) = sent c @ [''noidle'', cmd]
         \<and> seen @ unread (wire w) = drop (reply_length (unread c)) (unread c)"
    using cv by (auto simp: cmd_view_def)
  have d: "\<forall>name rest rid seen.
         unread c = (''changed: '' @ name, None) # (''OK'', None) # rest
           \<and> caller w = U_reading rid seen
         \<longrightarrow> prefix seen rest"
  proof (intro allI impI)
    fix name rest rid seen
    assume h: "unread c = (''changed: '' @ name, None) # (''OK'', None) # rest
           \<and> caller w = U_reading rid seen"
    have "strings_Index (''changed: '' @ name) infoFieldSep \<noteq> - 1"
      using index_from_none[of 0 "''changed: '' @ name" "'': ''"]
      by (auto simp: strings_Index_def infoFieldSep_def intro!: exI[of _ 7])
    with h have "reply_length (unread c) = 2" by simp
    with b h have "seen @ unread (wire w) = rest" by simp
    then show "prefix seen rest" by (metis prefixI)
  qed
  from a b d show ?thesis by blast
qed

lemma player_changed_play:
  "play [False, True, True, True, False, False, False, False, False, False] 0 ''status''
     (waiting 0 player_changed)
   = Some \<lparr>wire = \<lparr>sent = [''noidle'', ''status''], unread = [], wfail = [],
                    next_id = 3, resp_id = 2\<rparr>,
           idler = I_done None [''changed'' \<mapsto> ''player''],
           caller = U_reading 2 [(''state: play'', None), (''OK'', None)]\<rparr>"
  by (simp add: waiting_def player_changed_def sample_conn_def conn_Cmd_def ReadLine_def
        AddInfo_def strings_Index_def infoFieldSep_def StartResponse_def EndResponse_def
        startResponse_def Let_def)

text \<open>
  Claim C1. \<open>Cmd\<close> is these calls in this order: \<open>noidle\<close> is written, the response of
  \<open>noidle\<close> is started and ended, and only then the command is written. While an earlier
  response is not ended, as during the wait, \<open>Cmd\<close> gets no further than \<open>noidle\<close>.
  When it is called during the wait, the response of \<open>noidle\<close> cannot start before the
  reader has ended the response of the wait: in every interleaving of the two goroutines
  the command is on the wire only once the reader has finished, and the lines the caller
  reads in the response of its command are those after the reply to the wait. A
  \<open>changed\<close> line of that reply, and the \<open>OK\<close> that ends it, are never among them.
\<close>

theorem Cmd_during_wait:
  "Cmd cmd c = as_outcome (run_cmd 4 cmd U_noidle c)
   \<and> (resp_id c \<noteq> next_id c \<longrightarrow>
        sent (final (Cmd cmd c)) = sent c \<or> sent (final (Cmd cmd c)) = sent c @ [''noidle''])
   \<and> ((step k cmd)\<^sup>*\<^sup>* (waiting k c) w \<longrightarrow>
        (sent (wire w) = sent c \<or> sent (wire w) = sent c @ [''noidle'']
           \<or> (sent (wire w) = sent c @ [''noidle'', cmd] \<and> finished (idler w)))
        \<and> (\<forall>rid seen. caller w = U_reading rid seen \<longrightarrow>
              finished (idler w) \<and> sent (wire w) = sent c @ [''noidle'', cmd]
              \<and> seen @ unread (wire w) = drop (reply_length (unread c)) (unread c))
        \<and> (\<forall>name rest rid seen.
              unread c = (''changed: '' @ name, None) # (''OK'', None) # rest
                \<and> caller w = U_reading rid seen
              \<longrightarrow> prefix seen rest))"
  using Cmd_taken_apart[of cmd c] Cmd_pending[of c cmd] wait_reached[of k cmd c w]
  by blast

theorem Cmd_during_wait_witness:
  "(\<exists>w. (step 0 ''status'')\<^sup>*\<^sup>* (waiting 0 player_changed) w
      \<and> caller w = U_reading 2 [(''state: play'', None), (''OK'', None)]
      \<and> finished (idler w)
      \<and> sent (wire w) = [''noidle'', ''status'']
      \<and> prefix [(''state: play'', None :: go_error option), (''OK'', None)]
            [(''state: play'', None), (''OK'', None)])
   \<and> resp_id (wire (waiting 0 player_changed)) \<noteq> next_id (wire (waiting 0 player_changed))
   \<and> sent (final (Cmd ''status'' (wire (waiting 0 player_changed)))) = [''noidle'']"
proof -
  let ?w = "\<lparr>wire = \<lparr>sent = [''noidle'', ''status''], unread = [], wfail = [],
                    next_id = 3, resp_id = 2\<rparr>,
           idler = I_done None [''changed'' \<mapsto> ''player''],
           caller = U_reading 2 [(''state: play'', None), (''OK'', None)]\<rparr>"
  have r: "(step 0 ''status'')\<^sup>*\<^sup>* (waiting 0 player_changed) ?w"
    using player_changed_play by (rule play_reaches)
  have u: "unread player_changed = (''changed: '' @ ''player'', None) # (''OK'', None)
      # [(''state: play'', None), (''OK'', None)]"
    by (simp add: player_changed_def sample_conn_def)
  have c: "caller ?w = U_reading 2 [(''state: play'', None), (''OK'', None)]" by simp
  note T = Cmd_during_wait[of "''status''" player_changed 0 ?w, THEN conjunct2, THEN conjunct2,
      rule_format, OF r]
  from T[THEN conjunct2, THEN conjunct1, rule_format, OF c]
  have f: "finished (idler ?w)" and s: "sent (wire ?w) = sent player_changed @ [''noidle'', ''status'']"
    by blast+
  from T[THEN conjunct2, THEN conjunct2, rule_format, OF conjI[OF u c]]
  have p: "prefix [(''state: play'', None :: go_error option), (''OK'', None)]
      [(''state: play'', None), (''OK'', None)]" .
  have e: "sent player_changed = []" by (simp add: player_changed_def sample_conn_def)
  have n: "resp_id (wire (waiting 0 player_changed)) \<noteq> next_id (wire (waiting 0 player_changed))"
    by (simp add: waiting_def)
  have b: "Cmd ''status'' (wire (waiting 0 player_changed))
      = Blocks \<lparr>sent = [''noidle''], unread = [(''changed: player'', None), (''OK'', None),
                   (''state: play'', None), (''OK'', None)], wfail = [], next_id = 2, resp_id = 0\<rparr>"
    by (simp add: waiting_def player_changed_def sample_conn_def Cmd_def noIdle_def bind_def
          conn_Cmd_def StartResponse_def Let_def)
  from Cmd_during_wait[of "''status''" "wire (waiting 0 player_changed)" 0 ?w, THEN conjunct2,
      THEN conjunct1, rule_format, OF n]
  have q: "sent (final (Cmd ''status'' (wire (waiting 0 player_changed)))) = [''noidle'']"
    unfolding b by (simp add: waiting_def player_changed_def sample_conn_def)
  from r c f s p e n q show ?thesis by (intro conjI exI[of _ ?w]) simp_all
qed

lemma fill_taken_apart:
  "length (unread c) < n \<Longrightarrow>
     fillInfoUntilOK info c = read_outcome (run_reading n k (I_reading info) c)"
proof (induction n arbitrary: info c)
  case 0
  then show ?case by simp
next
  case (Suc n)
  show ?case
  proof (cases "unread c")
    case Nil
    then show ?thesis by (simp add: fill_blocks ReadLine_def)
  next
    case (Cons x rest)
    obtain line err where x: "x = (line, err)" by (cases x)
    show ?thesis
    proof (cases "err = None \<and> line \<noteq> ''OK'' \<and> fst (AddInfo info line) = None")
      case True
      then obtain info1 where a: "AddInfo info line = (None, info1)"
        by (cases "AddInfo info line") auto
      from Suc.prems Cons have "length (unread (c\<lparr>unread := rest\<rparr>)) < n" by simp
      from Suc.IH[OF this, of info1]
      have "fillInfoUntilOK info1 (c\<lparr>unread := rest\<rparr>)
          = read_outcome (run_reading n k (I_reading info1) (c\<lparr>unread := rest\<rparr>))" .
      moreover have "fillInfoUntilOK info c = fillInfoUntilOK info1 (c\<lparr>unread := rest\<rparr>)"
        using fill_line[of c line rest info] Cons x True a by simp
      moreover have "run_reading (Suc n) k (I_reading info) c
          = run_reading n k (I_reading info1) (c\<lparr>unread := rest\<rparr>)"
        using Cons x True a by (simp add: ReadLine_def)
      ultimately show ?thesis by simp
    next
      case False
      then consider e where "err = Some e" | "err = None" "line = ''OK''"
        | e i where "err = None" "line \<noteq> ''OK''" "AddInfo info line = (Some e, i)"
        by (cases err; cases "AddInfo info line") auto
      then show ?thesis
      proof cases
        case 1
        then show ?thesis using Cons x fill_read_error[of c line e rest info]
          by (cases n) (simp_all add: ReadLine_def)
      next
        case 2
        then show ?thesis using Cons x fill_OK[of c rest info]
          by (cases n) (simp_all add: ReadLine_def)
      next
        case 3
        then show ?thesis using Cons x fill_line[of c line rest info]
          by (cases n) (simp_all add: ReadLine_def)
      qed
    qed
  qed
qed

end
